theory Spec2Isabelle
  imports Complex_Main "HOL-Library.Log_Nat"
begin

unbundle bit_operations_syntax

section \<open>JavaScript numbers\<close>

text \<open>
  The module \<^verbatim>\<open>js/xmr-math.ts\<close> computes on JavaScript numbers, the values of IEEE 754
  binary64. A number is \<^verbatim>\<open>NaN\<close>, \<^verbatim>\<open>-Infinity\<close>, \<^verbatim>\<open>Infinity\<close> or a real (the
  numbers of the language are the reals that binary64 represents). The sign of zero is
  not modelled; the only zero divisor of the module is an array length, which is
  \<^verbatim>\<open>+0\<close>.
\<close>

datatype number = NaN | NegInfinity | Num real | Infinity

text \<open>
  The result of an arithmetic operation is the exact result rounded to binary64:
  \<open>binary64 r\<close> is the binary64 value nearest to the real \<open>r\<close>, of two nearest values
  the one with the even significand, and an infinity when this value is beyond the
  largest finite one. \<open>exponent a\<close> is the integer \<open>e\<close> with \<open>2^e \<le> a < 2^(e+1)\<close>, for
  \<open>a > 0\<close>; a significand has 53 bits, and the least exponent is \<open>-1022\<close> (below it
  the values are the subnormal ones, with the spacing \<open>2^(-1074)\<close>).
\<close>

definition exponent :: "real \<Rightarrow> int" where
  "exponent a = (if 1 \<le> a then bitlen \<lfloor>a\<rfloor> - 1 else - bitlen (\<lceil>1 / a\<rceil> - 1))"

definition pow2 :: "int \<Rightarrow> real" where
  "pow2 e = (if 0 \<le> e then 2 ^ nat e else 1 / 2 ^ nat (- e))"

definition round_half_even :: "real \<Rightarrow> int" where
  "round_half_even y =
     (let f = \<lfloor>y\<rfloor>; d = y - of_int f
      in if d < 1 / 2 then f else if 1 / 2 < d then f + 1 else if even f then f else f + 1)"

definition binary64 :: "real \<Rightarrow> number" where
  "binary64 r =
     (if r = 0 then Num 0
      else let a = \<bar>r\<bar>;
               e = max (exponent a) (- 1022);
               u = pow2 (e - 52);
               v = of_int (round_half_even (a / u)) * u
           in if pow2 1024 \<le> v then (if r < 0 then NegInfinity else Infinity)
              else Num (if r < 0 then - v else v))"

text \<open>
  The operations below are the ones the module uses, with the case tables of the
  language: every operation on \<^verbatim>\<open>NaN\<close> is \<^verbatim>\<open>NaN\<close>, every comparison with
  \<^verbatim>\<open>NaN\<close> is false. Comparisons, negation and the absolute value are exact.
\<close>

fun js_lt :: "number \<Rightarrow> number \<Rightarrow> bool" where
  "js_lt NaN b = False"
| "js_lt a NaN = False"
| "js_lt (Num a) (Num b) = (a < b)"
| "js_lt a NegInfinity = False"
| "js_lt Infinity b = False"
| "js_lt NegInfinity b = True"
| "js_lt a Infinity = True"

definition js_gt :: "number \<Rightarrow> number \<Rightarrow> bool" where
  "js_gt a b = js_lt b a"

fun js_neg :: "number \<Rightarrow> number" where
  "js_neg NaN = NaN"
| "js_neg NegInfinity = Infinity"
| "js_neg (Num a) = Num (- a)"
| "js_neg Infinity = NegInfinity"

fun js_add :: "number \<Rightarrow> number \<Rightarrow> number" where
  "js_add NaN b = NaN"
| "js_add a NaN = NaN"
| "js_add (Num a) (Num b) = binary64 (a + b)"
| "js_add Infinity NegInfinity = NaN"
| "js_add NegInfinity Infinity = NaN"
| "js_add Infinity b = Infinity"
| "js_add a Infinity = Infinity"
| "js_add NegInfinity b = NegInfinity"
| "js_add a NegInfinity = NegInfinity"

definition js_sub :: "number \<Rightarrow> number \<Rightarrow> number" where
  "js_sub a b = js_add a (js_neg b)"

fun is_negative :: "number \<Rightarrow> bool" where
  "is_negative NegInfinity = True"
| "is_negative (Num a) = (a < 0)"
| "is_negative a = False"

fun js_mul :: "number \<Rightarrow> number \<Rightarrow> number" where
  "js_mul NaN b = NaN"
| "js_mul a NaN = NaN"
| "js_mul (Num a) (Num b) = binary64 (a * b)"
| "js_mul a b =
     (if a = Num 0 \<or> b = Num 0 then NaN
      else if is_negative a = is_negative b then Infinity else NegInfinity)"

fun js_div :: "number \<Rightarrow> number \<Rightarrow> number" where
  "js_div NaN b = NaN"
| "js_div a NaN = NaN"
| "js_div (Num a) (Num b) =
     (if b \<noteq> 0 then binary64 (a / b)
      else if a = 0 then NaN else if 0 < a then Infinity else NegInfinity)"
| "js_div (Num a) b = Num 0"
| "js_div a (Num b) = (if is_negative a = (b < 0) then Infinity else NegInfinity)"
| "js_div a b = NaN"

fun Math_abs :: "number \<Rightarrow> number" where
  "Math_abs NaN = NaN"
| "Math_abs (Num a) = Num \<bar>a\<bar>"
| "Math_abs a = Infinity"

text \<open>
  \<^verbatim>\<open>Math.round\<close> gives the nearest integer, and of the two nearest integers of a
  value halfway between them the larger one: \<^verbatim>\<open>Math.round(2.5)\<close> is 3 and
  \<^verbatim>\<open>Math.round(-2.5)\<close> is -2. It is exact: the nearest integer of a binary64 value
  is a binary64 value.
\<close>

fun Math_round :: "number \<Rightarrow> number" where
  "Math_round (Num a) = Num (of_int \<lfloor>a + 1 / 2\<rfloor>)"
| "Math_round a = a"

definition Math_min :: "number \<Rightarrow> number \<Rightarrow> number" where
  "Math_min a b = (if a = NaN \<or> b = NaN then NaN else if js_lt b a then b else a)"

definition Math_max :: "number \<Rightarrow> number \<Rightarrow> number" where
  "Math_max a b = (if a = NaN \<or> b = NaN then NaN else if js_lt a b then b else a)"

text \<open>Truthiness of a number, and the loose comparison \<^verbatim>\<open>n == 0\<close>.\<close>

definition truthy :: "number \<Rightarrow> bool" where
  "truthy n = (n \<noteq> NaN \<and> n \<noteq> Num 0)"

definition eq_zero :: "number \<Rightarrow> bool" where
  "eq_zero n = (n = Num 0)"

section \<open>Constants and rounding\<close>

text \<open>A decimal literal of the source is the binary64 value nearest to it.\<close>

definition NPL_SCALING :: number where
  "NPL_SCALING = binary64 2.66"

definition URL_SCALING :: number where
  "URL_SCALING = binary64 3.268"

definition DECIMAL_POINT :: nat where
  "DECIMAL_POINT = 2"

text \<open>
  \<^verbatim>\<open>round(n, decimal_point = DECIMAL_POINT)\<close>:
  \<^verbatim>\<open>let pow = 10 ** decimal_point; return Math.round(n * pow) / pow;\<close>
  Every call of the module leaves the second argument to its default, written out here
  as \<open>round_js n DECIMAL_POINT\<close>; the power is then 100 (a power of 10 up to
  \<open>10^22\<close> is a binary64 value as it is).
\<close>

definition round_js :: "number \<Rightarrow> nat \<Rightarrow> number" where
  "round_js n decimal_point =
     (let pow = Num (10 ^ decimal_point) in js_div (Math_round (js_mul n pow)) pow)"

text \<open>
  The rounding rule the specification names, written from its words: the value at 2
  decimal places nearest to \<open>n\<close>, an exact half at the second decimal going away from
  zero.
\<close>

definition round_half_away_from_zero :: "real \<Rightarrow> real" where
  "round_half_away_from_zero n = sgn n * of_int \<lfloor>\<bar>n\<bar> * 100 + 1 / 2\<rfloor> / 100"

section \<open>Data model\<close>

text \<open>
  \<^verbatim>\<open>enum DataStatus { NORMAL = 0, RUN_OF_EIGHT_EXCEPTION = 1,
  FOUR_NEAR_LIMIT_EXCEPTION = 2, NPL_EXCEPTION = 3 }\<close>
\<close>

datatype DataStatus =
  NORMAL | RUN_OF_EIGHT_EXCEPTION | FOUR_NEAR_LIMIT_EXCEPTION | NPL_EXCEPTION

fun status_code :: "DataStatus \<Rightarrow> nat" where
  "status_code NORMAL = 0"
| "status_code RUN_OF_EIGHT_EXCEPTION = 1"
| "status_code FOUR_NEAR_LIMIT_EXCEPTION = 2"
| "status_code NPL_EXCEPTION = 3"

text \<open>
  \<^verbatim>\<open>type DataValue = { order: number; x: string; value: number; status: DataStatus }\<close>.
  The rows that reach \<^verbatim>\<open>computeXmrStats\<close> are built from user data, so at run time
  \<open>x\<close> and \<open>value\<close> may be missing: \<open>None\<close> is the missing field
  (\<^verbatim>\<open>undefined\<close>, and \<^verbatim>\<open>null\<close>, which \<^verbatim>\<open>removeAllNulls\<close> treats alike). A
  missing value read in a numeric expression is \<^verbatim>\<open>NaN\<close>.
\<close>

record DataValue =
  order :: int
  x :: "string option"
  "value" :: "number option"
  status :: DataStatus

definition num_value :: "DataValue \<Rightarrow> number" where
  "num_value d = (case value d of None \<Rightarrow> NaN | Some n \<Rightarrow> n)"

text \<open>
  The checks write the \<open>status\<close> of the objects the caller's array refers to. The
  objects live in a store, a list indexed by reference; an array of
  \<^verbatim>\<open>DataValue\<close> is a list of references, so that two arrays (or two places of one
  array) can share an object. A new object is appended to the store.
\<close>

type_synonym ref = nat
type_synonym heap = "DataValue list"

definition set_status :: "heap \<Rightarrow> ref \<Rightarrow> DataStatus \<Rightarrow> heap" where
  "set_status h r s = h[r := (h ! r)\<lparr>status := s\<rparr>]"

definition new_object :: "heap \<Rightarrow> DataValue \<Rightarrow> heap \<times> ref" where
  "new_object h d = (h @ [d], length h)"

section \<open>Exception detection checks\<close>

text \<open>
  \<^verbatim>\<open>checkRunOfEight\<close>. \<open>aboveOrBelow\<close> is a number used as a bit mask; the bitwise
  operators of JavaScript work on 32-bit integers, and the mask stays within 0..255, so
  it is an \<open>int\<close> here. \<open>runOfEight_prime\<close> is the body of the first loop (indices
  0..6), \<open>runOfEight_step\<close> the body of the second (indices 7 onward).
\<close>

definition runOfEight_prime :: "heap \<Rightarrow> ref list \<Rightarrow> number \<Rightarrow> int \<Rightarrow> nat \<Rightarrow> int" where
  "runOfEight_prime h data avg aboveOrBelow i =
     (if js_gt (num_value (h ! (data ! i))) avg
      then aboveOrBelow OR push_bit (i mod 8) 1
      else aboveOrBelow)"

definition runOfEight_step :: "ref list \<Rightarrow> number \<Rightarrow> int \<times> heap \<Rightarrow> nat \<Rightarrow> int \<times> heap" where
  "runOfEight_step data avg s i =
     (let (aboveOrBelow, h) = s;
          aboveOrBelow' =
            (if js_gt (num_value (h ! (data ! i))) avg
             then aboveOrBelow OR push_bit (i mod 8) 1
             else aboveOrBelow AND NOT (push_bit (i mod 8) 1));
          h' = (if aboveOrBelow' = 0 \<or> aboveOrBelow' = 255
                then foldl (\<lambda>h j. set_status h (data ! j) RUN_OF_EIGHT_EXCEPTION) h [i - 7..<i + 1]
                else h)
      in (aboveOrBelow', h'))"

text \<open>The state of the second loop after the iterations for indices \<open>7..<k\<close>.\<close>

definition runOfEight_loop :: "heap \<Rightarrow> ref list \<Rightarrow> number \<Rightarrow> nat \<Rightarrow> int \<times> heap" where
  "runOfEight_loop h data avg k =
     foldl (runOfEight_step data avg)
       (foldl (runOfEight_prime h data avg) 0 [0..<7], h) [7..<k]"

definition checkRunOfEight :: "heap \<Rightarrow> ref list \<Rightarrow> number \<Rightarrow> heap" where
  "checkRunOfEight h data avg =
     (if length data < 8 then h else snd (runOfEight_loop h data avg (length data)))"

text \<open>
  \<^verbatim>\<open>checkFourNearLimit\<close>: \<open>fourNearLimit_count\<close> is the
  \<^verbatim>\<open>if (v < lowerQuartile) ... else if (v > upperQuartile) ...\<close> that adds to (\<open>d = 1\<close>)
  or takes from (\<open>d = -1\<close>) the two counters, \<open>fourNearLimit_step\<close> the body of the
  second loop.
\<close>

definition fourNearLimit_count ::
  "heap \<Rightarrow> ref list \<Rightarrow> number \<Rightarrow> number \<Rightarrow> int \<Rightarrow> int \<times> int \<Rightarrow> nat \<Rightarrow> int \<times> int" where
  "fourNearLimit_count h data lowerQuartile upperQuartile d c i =
     (let (belowQuartile, aboveQuartile) = c in
      if js_lt (num_value (h ! (data ! i))) lowerQuartile then (belowQuartile + d, aboveQuartile)
      else if js_gt (num_value (h ! (data ! i))) upperQuartile then (belowQuartile, aboveQuartile + d)
      else (belowQuartile, aboveQuartile))"

definition fourNearLimit_step ::
  "ref list \<Rightarrow> number \<Rightarrow> number \<Rightarrow> (int \<times> int) \<times> heap \<Rightarrow> nat \<Rightarrow> (int \<times> int) \<times> heap" where
  "fourNearLimit_step data lowerQuartile upperQuartile s i =
     (let (c, h) = s;
          c' = fourNearLimit_count h data lowerQuartile upperQuartile 1 c i;
          h' = (if 3 \<le> fst c' \<or> 3 \<le> snd c'
                then foldl (\<lambda>h j. set_status h (data ! j) FOUR_NEAR_LIMIT_EXCEPTION) h [i - 3..<i + 1]
                else h);
          c'' = fourNearLimit_count h' data lowerQuartile upperQuartile (- 1) c' (i - 3)
      in (c'', h'))"

text \<open>The state of the second loop after the iterations for indices \<open>3..<k\<close>.\<close>

definition fourNearLimit_loop ::
  "heap \<Rightarrow> ref list \<Rightarrow> number \<Rightarrow> number \<Rightarrow> nat \<Rightarrow> (int \<times> int) \<times> heap" where
  "fourNearLimit_loop h data lowerQuartile upperQuartile k =
     foldl (fourNearLimit_step data lowerQuartile upperQuartile)
       (foldl (fourNearLimit_count h data lowerQuartile upperQuartile 1) (0, 0) [0..<3], h) [3..<k]"

definition checkFourNearLimit :: "heap \<Rightarrow> ref list \<Rightarrow> number \<Rightarrow> number \<Rightarrow> heap" where
  "checkFourNearLimit h data lowerQuartile upperQuartile =
     (if length data < 4 then h
      else snd (fourNearLimit_loop h data lowerQuartile upperQuartile (length data)))"

definition checkOutsideLimit :: "heap \<Rightarrow> ref list \<Rightarrow> number \<Rightarrow> number \<Rightarrow> heap" where
  "checkOutsideLimit h data lowerLimit upperLimit =
     foldl (\<lambda>h dv.
              if js_lt (num_value (h ! dv)) lowerLimit then set_status h dv NPL_EXCEPTION
              else if js_gt (num_value (h ! dv)) upperLimit then set_status h dv NPL_EXCEPTION
              else h)
       h data"

section \<open>Limits and statistics\<close>

record Limits =
  avgX :: number
  avgMovement :: number
  UNPL :: number
  LNPL :: number
  URL :: number
  lowerQuartile :: number
  upperQuartile :: number

record LineValueType = Limits +
  xLeft :: number
  xRight :: number

record Stats =
  xchartMin :: number
  xchartMax :: number
  mrchartMax :: number
  lineValues :: "LineValueType list"
  xdataPerRange :: "ref list list"
  movementsPerRange :: "ref list list"

section \<open>Utility functions\<close>

text \<open>
  \<^verbatim>\<open>fromDateStr(ds) = dayjs(ds).valueOf()\<close>. The date library is not part of the
  repository: it is the parameter \<open>dayjs\<close>, which gives the instant of a date string,
  an integer of milliseconds (the instants of dates are below \<open>2^53\<close> in magnitude,
  and so are numbers as they are), or \<open>None\<close> for a string that does not parse, whose
  instant is \<^verbatim>\<open>NaN\<close>.
\<close>

definition fromDateStr :: "(string option \<Rightarrow> int option) \<Rightarrow> string option \<Rightarrow> number" where
  "fromDateStr dayjs ds = (case dayjs ds of None \<Rightarrow> NaN | Some t \<Rightarrow> Num (of_int t))"

text \<open>
  \<^verbatim>\<open>dv.sort((a, b) => fromDateStr(a.x) - fromDateStr(b.x))\<close>. The difference of two
  instants that are numbers has the sign of their order, and
  \<^verbatim>\<open>Array.prototype.sort\<close> is then a stable sort, ascending by the instant. When an
  instant is \<^verbatim>\<open>NaN\<close> the comparator returns \<^verbatim>\<open>NaN\<close>, which the sort takes as 0:
  if the other instants are all equal, every comparison is 0 and the stable sort leaves
  the array as it is; otherwise the comparator is not consistent, and the order of the
  result is implementation-defined. The result is then the rearrangement of the array
  that the engine chooses: the parameter \<open>engine\<close> gives, from the instants, a ranking
  of the positions. The array is sorted in place and returned; the model returns the
  sorted array. \<open>instant\<close> is the instant of the date of a row, read only for rows
  whose date parses.
\<close>

definition instant :: "(string option \<Rightarrow> int option) \<Rightarrow> heap \<Rightarrow> ref \<Rightarrow> int" where
  "instant dayjs h r = (case dayjs (x (h ! r)) of None \<Rightarrow> 0 | Some t \<Rightarrow> t)"

definition sortDataValues ::
  "(string option \<Rightarrow> int option) \<Rightarrow> (number list \<Rightarrow> nat \<Rightarrow> nat) \<Rightarrow> heap \<Rightarrow> ref list \<Rightarrow> ref list" where
  "sortDataValues dayjs engine h dv =
     (let parsed = filter (\<lambda>r. dayjs (x (h ! r)) \<noteq> None) dv in
      if parsed = dv then sort_key (instant dayjs h) dv
      else if list_all (\<lambda>r. instant dayjs h r = instant dayjs h (hd parsed)) parsed then dv
      else map ((!) dv)
             (sort_key (engine (map (\<lambda>r. fromDateStr dayjs (x (h ! r))) dv)) [0..<length dv]))"

text \<open>
  \<^verbatim>\<open>dv.filter((d) => d.x && (d.value || d.value == 0))\<close>: a string is truthy when
  it is present and not empty, a number when it is neither \<^verbatim>\<open>NaN\<close> nor zero.
  \<^verbatim>\<open>filter\<close> builds a new array of the same objects.
\<close>

definition truthy_string :: "string option \<Rightarrow> bool" where
  "truthy_string s = (case s of None \<Rightarrow> False | Some t \<Rightarrow> t \<noteq> [])"

definition truthy_value :: "number option \<Rightarrow> bool" where
  "truthy_value v = (case v of None \<Rightarrow> False | Some n \<Rightarrow> truthy n)"

definition value_eq_zero :: "number option \<Rightarrow> bool" where
  "value_eq_zero v = (case v of None \<Rightarrow> False | Some n \<Rightarrow> eq_zero n)"

definition removeAllNulls :: "heap \<Rightarrow> ref list \<Rightarrow> ref list" where
  "removeAllNulls h dv =
     filter (\<lambda>r. let d = h ! r in
               truthy_string (x d) \<and> (truthy_value (value d) \<or> value_eq_zero (value d))) dv"

definition findExtremesX ::
  "(string option \<Rightarrow> int option) \<Rightarrow> heap \<Rightarrow> ref list \<Rightarrow> number \<times> number" where
  "findExtremesX dayjs h arr =
     foldl (\<lambda>(min, max) el.
              let d = fromDateStr dayjs (x (h ! el))
              in (Math_min min d, Math_max max d))
       (Infinity, NegInfinity) arr"

text \<open>
  \<^verbatim>\<open>getMovements\<close>: the loop \<^verbatim>\<open>for (let i = 1; i < xdata.length; i++)\<close> pushes one
  new object for each index.
\<close>

definition getMovements_step :: "ref list \<Rightarrow> heap \<times> ref list \<Rightarrow> nat \<Rightarrow> heap \<times> ref list" where
  "getMovements_step xdata s i =
     (let (h, movements) = s;
          diff = round_js (Math_abs (js_sub (num_value (h ! (xdata ! i)))
                                            (num_value (h ! (xdata ! (i - 1)))))) DECIMAL_POINT;
          (h', m) = new_object h
                      \<lparr>order = order (h ! (xdata ! i)), x = x (h ! (xdata ! i)),
                       value = Some diff, status = NORMAL\<rparr>
      in (h', movements @ [m]))"

definition getMovements :: "heap \<Rightarrow> ref list \<Rightarrow> heap \<times> ref list" where
  "getMovements h xdata = foldl (getMovements_step xdata) (h, []) [1..<length xdata]"

text \<open>
  \<^verbatim>\<open>calculateLimits\<close>. The flags \<^verbatim>\<open>USE_MEDIAN_AVG\<close> and \<^verbatim>\<open>USE_MEDIAN_MR\<close> are
  the constant \<^verbatim>\<open>false\<close>, so the branches through \<^verbatim>\<open>calculateMedian\<close> and the
  median scaling constants are never taken; the model has the other branches. The
  movement objects made here are local to the call: the store that holds them is
  dropped on return. \<open>calculateLimits_unrounded\<close> holds the constants that the function
  computes (\<^verbatim>\<open>avgX\<close>, \<^verbatim>\<open>avgMovement\<close>, \<^verbatim>\<open>UNPL\<close>, \<^verbatim>\<open>LNPL\<close>, \<^verbatim>\<open>URL\<close>,
  \<^verbatim>\<open>lowerQuartile\<close>, \<^verbatim>\<open>upperQuartile\<close>); the object it returns has each of them
  rounded. The length of an array is a number as it is.
\<close>

definition calculateLimits_unrounded :: "heap \<Rightarrow> ref list \<Rightarrow> Limits" where
  "calculateLimits_unrounded h xdata =
     (let (h', movements) = getMovements h xdata;
          avgX' = js_div (foldl (\<lambda>a b. js_add a (num_value (h' ! b))) (Num 0) xdata)
                    (Num (real (length xdata)));
          avgMovement' = js_div (foldl (\<lambda>a b. js_add a (num_value (h' ! b))) (Num 0) movements)
                           (Num (real (max (length movements) 1)));
          delta = js_mul NPL_SCALING avgMovement';
          UNPL' = js_add avgX' delta;
          LNPL' = js_sub avgX' delta;
          URL' = js_mul URL_SCALING avgMovement';
          lowerQuartile' = js_div (js_add LNPL' avgX') (Num 2);
          upperQuartile' = js_div (js_add UNPL' avgX') (Num 2)
      in \<lparr>avgX = avgX', avgMovement = avgMovement', UNPL = UNPL', LNPL = LNPL', URL = URL',
          lowerQuartile = lowerQuartile', upperQuartile = upperQuartile'\<rparr>)"

definition calculateLimits :: "heap \<Rightarrow> ref list \<Rightarrow> Limits" where
  "calculateLimits h xdata =
     (let l = calculateLimits_unrounded h xdata
      in \<lparr>avgX = round_js (avgX l) DECIMAL_POINT,
          avgMovement = round_js (avgMovement l) DECIMAL_POINT,
          UNPL = round_js (UNPL l) DECIMAL_POINT,
          LNPL = round_js (LNPL l) DECIMAL_POINT,
          URL = round_js (URL l) DECIMAL_POINT,
          lowerQuartile = round_js (lowerQuartile l) DECIMAL_POINT,
          upperQuartile = round_js (upperQuartile l) DECIMAL_POINT\<rparr>)"

section \<open>\<^verbatim>\<open>computeXmrStats\<close>\<close>

definition reset_status :: "heap \<Rightarrow> ref list \<Rightarrow> heap" where
  "reset_status h data = foldl (\<lambda>h dv. set_status h dv NORMAL) h data"

definition widen_xchart :: "heap \<Rightarrow> Stats \<Rightarrow> ref \<Rightarrow> Stats" where
  "widen_xchart h stats dv =
     (let stats1 = (if js_gt (num_value (h ! dv)) (xchartMax stats)
                    then stats\<lparr>xchartMax := num_value (h ! dv)\<rparr> else stats)
      in if js_lt (num_value (h ! dv)) (xchartMin stats1)
         then stats1\<lparr>xchartMin := num_value (h ! dv)\<rparr> else stats1)"

definition widen_mrchart :: "heap \<Rightarrow> Stats \<Rightarrow> ref \<Rightarrow> Stats" where
  "widen_mrchart h stats dv =
     (if js_gt (num_value (h ! dv)) (mrchartMax stats)
      then stats\<lparr>mrchartMax := num_value (h ! dv)\<rparr> else stats)"

text \<open>
  The state of the value series after the three checks of \<^verbatim>\<open>computeXmrStats\<close>, in
  the order of the source.
\<close>

definition check_xdata :: "heap \<Rightarrow> ref list \<Rightarrow> Limits \<Rightarrow> heap" where
  "check_xdata h tableData l =
     (let h1 = reset_status h tableData;
          h2 = checkRunOfEight h1 tableData (avgX l);
          h3 = checkFourNearLimit h2 tableData (lowerQuartile l) (upperQuartile l)
      in checkOutsideLimit h3 tableData (LNPL l) (UNPL l))"

definition computeXmrStats ::
  "(string option \<Rightarrow> int option) \<Rightarrow> (number list \<Rightarrow> nat \<Rightarrow> nat) \<Rightarrow> heap \<Rightarrow> ref list \<Rightarrow> heap \<times> Stats" where
  "computeXmrStats dayjs engine h data =
     (let tableData = sortDataValues dayjs engine h (removeAllNulls h data);
          (xdataXmin, xdataXmax) = findExtremesX dayjs h tableData;
          stats = \<lparr>xchartMin = Infinity, xchartMax = NegInfinity, mrchartMax = NegInfinity,
                   lineValues = [], xdataPerRange = [], movementsPerRange = []\<rparr>
      in if length tableData = 0 then (h, stats)
         else
           let l = calculateLimits h tableData;
               lv = \<lparr>avgX = avgX l, avgMovement = avgMovement l, UNPL = UNPL l, LNPL = LNPL l,
                     URL = URL l, lowerQuartile = lowerQuartile l, upperQuartile = upperQuartile l,
                     xLeft = xdataXmin, xRight = xdataXmax\<rparr>;
               stats1 = stats\<lparr>lineValues := lineValues stats @ [lv]\<rparr>;
               stats2 = stats1\<lparr>xchartMin := Math_min (xchartMin stats1) (LNPL l)\<rparr>;
               stats3 = stats2\<lparr>xchartMax := Math_max (xchartMax stats2) (UNPL l)\<rparr>;
               stats4 = stats3\<lparr>mrchartMax := Math_max (mrchartMax stats3) (URL l)\<rparr>;
               h1 = check_xdata h tableData l;
               stats5 = stats4\<lparr>xdataPerRange := xdataPerRange stats4 @ [tableData]\<rparr>;
               (h2, movements) = getMovements h1 tableData;
               h3 = reset_status h2 movements;
               h4 = checkOutsideLimit h3 movements (Num 0) (URL l);
               stats6 = stats5\<lparr>movementsPerRange := movementsPerRange stats5 @ [movements]\<rparr>;
               stats7 = foldl (widen_xchart h4) stats6 (removeAllNulls h4 tableData);
               stats8 = foldl (widen_mrchart h4) stats7 movements
           in (h4, stats8))"
section \<open>Notions used in the statements and proofs\<close>

text \<open>The same status written to each object of a list, as the inner loops of the checks do.\<close>

definition set_all :: "heap \<Rightarrow> ref list \<Rightarrow> DataStatus \<Rightarrow> heap" where
  "set_all h rs s = foldl (\<lambda>h r. set_status h r s) h rs"

text \<open>The object that \<^verbatim>\<open>getMovements\<close> makes for position \<open>i\<close> of the series.\<close>

definition movement :: "heap \<Rightarrow> ref list \<Rightarrow> nat \<Rightarrow> DataValue" where
  "movement h xdata i =
     \<lparr>order = order (h ! (xdata ! i)), x = x (h ! (xdata ! i)),
      value = Some (round_js (Math_abs (js_sub (num_value (h ! (xdata ! i)))
                                               (num_value (h ! (xdata ! (i - 1)))))) DECIMAL_POINT),
      status = NORMAL\<rparr>"

text \<open>
  For the run-of-eight check: the value at position \<open>j\<close> is strictly greater than the
  mean; the window of the 8 positions that end at \<open>i\<close> is all above or all not above;
  the bits of the mask \<open>m\<close> before the iteration for position \<open>k\<close> record \<open>above\<close>
  for the (at most 8) positions before \<open>k\<close>; the object \<open>r\<close> is at a position of a
  uniform window that ends before \<open>k\<close>.
\<close>

definition above :: "heap \<Rightarrow> ref list \<Rightarrow> number \<Rightarrow> nat \<Rightarrow> bool" where
  "above h data avg j = js_gt (num_value (h ! (data ! j))) avg"

definition uniform_window :: "heap \<Rightarrow> ref list \<Rightarrow> number \<Rightarrow> nat \<Rightarrow> bool" where
  "uniform_window h data avg i =
     ((\<forall>j\<in>{i - 7..i}. above h data avg j) \<or> (\<forall>j\<in>{i - 7..i}. \<not> above h data avg j))"

definition mask_bits :: "heap \<Rightarrow> ref list \<Rightarrow> number \<Rightarrow> nat \<Rightarrow> int \<Rightarrow> bool" where
  "mask_bits h data avg k m =
     (\<forall>b. bit m b \<longleftrightarrow> (\<exists>j. k - 8 \<le> j \<and> j < k \<and> j mod 8 = b \<and> above h data avg j))"

definition run_marked :: "heap \<Rightarrow> ref list \<Rightarrow> number \<Rightarrow> nat \<Rightarrow> ref \<Rightarrow> bool" where
  "run_marked h data avg k r =
     (\<exists>i\<in>{7..<k}. uniform_window h data avg i \<and> r \<in> (!) data ` {i - 7..i})"

text \<open>Two stores of the same size that differ at most in the statuses of their objects.\<close>

definition same_data :: "heap \<Rightarrow> heap \<Rightarrow> bool" where
  "same_data h h' =
     (length h' = length h \<and>
      (\<forall>r. order (h' ! r) = order (h ! r) \<and> x (h' ! r) = x (h ! r) \<and> value (h' ! r) = value (h ! r)))"

text \<open>
  For the four-near-limit check: the value at position \<open>j\<close> is strictly below the lower
  marker; it is not, and is strictly above the upper marker (the \<^verbatim>\<open>else if\<close> of the
  code); the number of positions of a list with a property; the test of the iteration
  for position \<open>i\<close>, on the 4 positions that end at \<open>i\<close>; the object \<open>r\<close> is at a
  position of a window that passed the test and ends before \<open>k\<close>.
\<close>

definition below :: "heap \<Rightarrow> ref list \<Rightarrow> number \<Rightarrow> nat \<Rightarrow> bool" where
  "below h data lowerQ j = js_lt (num_value (h ! (data ! j))) lowerQ"

definition above_only :: "heap \<Rightarrow> ref list \<Rightarrow> number \<Rightarrow> number \<Rightarrow> nat \<Rightarrow> bool" where
  "above_only h data lowerQ upperQ j =
     (\<not> js_lt (num_value (h ! (data ! j))) lowerQ \<and> js_gt (num_value (h ! (data ! j))) upperQ)"

definition count_in :: "(nat \<Rightarrow> bool) \<Rightarrow> nat list \<Rightarrow> int" where
  "count_in P js = int (length (filter P js))"

definition near_window :: "heap \<Rightarrow> ref list \<Rightarrow> number \<Rightarrow> number \<Rightarrow> nat \<Rightarrow> bool" where
  "near_window h data lowerQ upperQ i =
     (3 \<le> count_in (below h data lowerQ) [i - 3..<Suc i] \<or>
      3 \<le> count_in (above_only h data lowerQ upperQ) [i - 3..<Suc i])"

definition four_marked :: "heap \<Rightarrow> ref list \<Rightarrow> number \<Rightarrow> number \<Rightarrow> nat \<Rightarrow> ref \<Rightarrow> bool" where
  "four_marked h data lowerQ upperQ k r =
     (\<exists>i\<in>{3..<k}. near_window h data lowerQ upperQ i \<and> r \<in> (!) data ` {i - 3..i})"

text \<open>
  The declarative run-of-eight rule, from the words of the specification: position \<open>j\<close>
  belongs to a window of 8 consecutive positions of the series whose values are all
  strictly greater than \<open>avg\<close>, or all not strictly greater than \<open>avg\<close>.
\<close>

definition in_run_of_eight :: "heap \<Rightarrow> ref list \<Rightarrow> number \<Rightarrow> nat \<Rightarrow> bool" where
  "in_run_of_eight h data avg j =
     (\<exists>s\<in>{0..<length data - 7}. s \<le> j \<and> j < s + 8 \<and>
        ((\<forall>k\<in>{s..<s + 8}. js_gt (num_value (h ! (data ! k))) avg) \<or>
         (\<forall>k\<in>{s..<s + 8}. \<not> js_gt (num_value (h ! (data ! k))) avg)))"

text \<open>The series of the specification's degenerate example: 9 points of value 10.\<close>

definition nine_tens :: heap where
  "nine_tens =
     map (\<lambda>i. \<lparr>order = int i, x = Some (''2024-01-0'' @ [char_of (49 + i)]),
                value = Some (Num 10), status = NORMAL\<rparr>) [0..<9]"

text \<open>Four points of which three are above an upper quarter marker of 10.\<close>

definition three_of_four :: heap where
  "three_of_four =
     [\<lparr>order = 0, x = Some ''2024-01-01'', value = Some (Num 20), status = NORMAL\<rparr>,
      \<lparr>order = 1, x = Some ''2024-01-02'', value = Some (Num 20), status = NORMAL\<rparr>,
      \<lparr>order = 2, x = Some ''2024-01-03'', value = Some (Num 7), status = NORMAL\<rparr>,
      \<lparr>order = 3, x = Some ''2024-01-04'', value = Some (Num 20), status = NORMAL\<rparr>]"

text \<open>Two points whose values differ by an eighth.\<close>

definition eighth_apart :: heap where
  "eighth_apart =
     [\<lparr>order = 0, x = Some ''2024-01-01'', value = Some (Num 0), status = RUN_OF_EIGHT_EXCEPTION\<rparr>,
      \<lparr>order = 1, x = Some ''2024-01-02'', value = Some (Num 0.125), status = NPL_EXCEPTION\<rparr>]"

text \<open>
  The objects of \<open>h\<close> are objects of \<open>h'\<close> with the same \<open>order\<close>, \<open>x\<close> and
  \<open>value\<close>.
\<close>

definition keeps_data :: "heap \<Rightarrow> heap \<Rightarrow> bool" where
  "keeps_data h h' =
     (length h \<le> length h' \<and>
      (\<forall>r<length h. order (h' ! r) = order (h ! r) \<and> x (h' ! r) = x (h ! r) \<and>
                      value (h' ! r) = value (h ! r)))"

text \<open>
  Stand-ins for the date library and for the engine in the concrete examples: the day
  of the month of a date string \<open>YYYY-MM-DD\<close>, no instant for a shorter string; the
  ranking that leaves every position where it is.
\<close>

definition day_of_month :: "string option \<Rightarrow> int option" where
  "day_of_month ds =
     (case ds of None \<Rightarrow> None
      | Some s \<Rightarrow> (case rev s of
                     u # t # rest \<Rightarrow> Some (10 * (int (of_char t) - 48) + (int (of_char u) - 48))
                   | _ \<Rightarrow> None))"

definition as_it_is :: "number list \<Rightarrow> nat \<Rightarrow> nat" where
  "as_it_is instants i = i"

text \<open>Eight points of value 10 followed by eight points of value 30, on 16 days.\<close>

definition step_series :: heap where
  "step_series =
     map (\<lambda>i. \<lparr>order = int i,
                x = Some (''2024-01-'' @ [char_of (48 + (i + 1) div 10), char_of (48 + (i + 1) mod 10)]),
                value = Some (Num (if i < 8 then 10 else 30)), status = NORMAL\<rparr>) [0..<16]"

text \<open>
  For the proofs about \<open>binary64\<close>: the spacing of the binary64 values around a positive
  real \<open>a\<close>, and the multiple of the spacing nearest to \<open>a\<close>, which is the magnitude of
  \<open>binary64\<close> when it is finite.
\<close>

definition ulp :: "real \<Rightarrow> real" where
  "ulp a = pow2 (max (exponent a) (- 1022) - 52)"

definition nearest :: "real \<Rightarrow> real" where
  "nearest a = of_int (round_half_even (a / ulp a)) * ulp a"

text \<open>A number that is not negative: \<^verbatim>\<open>NaN\<close>, \<^verbatim>\<open>Infinity\<close> or a real \<open>\<ge> 0\<close>.\<close>

fun not_negative :: "number \<Rightarrow> bool" where
  "not_negative (Num a) = (0 \<le> a)"
| "not_negative NegInfinity = False"
| "not_negative a = True"

text \<open>
  The limits in the words of the specification, in the arithmetic of the language. The
  values of a series; the arithmetic mean of a list of numbers, the sum from 0 in the
  order of the list, divided by the count; the absolute differences \<open>|v[i] - v[i-1]|\<close>
  of consecutive values, which the specification gives as the movement values; the
  movement values that \<^verbatim>\<open>getMovements\<close> gives, each absolute difference rounded by
  \<^verbatim>\<open>round\<close>; the mean movement of a list of movement values, 0 for the empty list,
  the count in the denominator being at least 1; and the limits of the values \<open>vs\<close> for
  the movement values \<open>ms\<close>, each rounded by \<^verbatim>\<open>round\<close>.
\<close>

definition values_of :: "heap \<Rightarrow> ref list \<Rightarrow> number list" where
  "values_of h xdata = map (\<lambda>r. num_value (h ! r)) xdata"

definition arithmetic_mean :: "number list \<Rightarrow> number" where
  "arithmetic_mean vs = js_div (foldl js_add (Num 0) vs) (Num (real (length vs)))"

fun absolute_differences :: "number list \<Rightarrow> number list" where
  "absolute_differences (a # b # vs) = Math_abs (js_sub b a) # absolute_differences (b # vs)"
| "absolute_differences vs = []"

definition movement_values :: "number list \<Rightarrow> number list" where
  "movement_values vs = map (\<lambda>d. round_js d DECIMAL_POINT) (absolute_differences vs)"

definition mean_movement :: "number list \<Rightarrow> number" where
  "mean_movement ms = js_div (foldl js_add (Num 0) ms) (Num (real (max (length ms) 1)))"

definition limit_set :: "number list \<Rightarrow> number list \<Rightarrow> Limits" where
  "limit_set ms vs =
     (let mean = arithmetic_mean vs;
          meanMovement = mean_movement ms;
          upperNaturalLimit = js_add mean (js_mul (binary64 2.66) meanMovement);
          lowerNaturalLimit = js_sub mean (js_mul (binary64 2.66) meanMovement);
          upperRangeLimit = js_mul (binary64 3.268) meanMovement;
          lowerQuarterMarker = js_div (js_add lowerNaturalLimit mean) (Num 2);
          upperQuarterMarker = js_div (js_add upperNaturalLimit mean) (Num 2)
      in \<lparr>avgX = round_js mean DECIMAL_POINT,
          avgMovement = round_js meanMovement DECIMAL_POINT,
          UNPL = round_js upperNaturalLimit DECIMAL_POINT,
          LNPL = round_js lowerNaturalLimit DECIMAL_POINT,
          URL = round_js upperRangeLimit DECIMAL_POINT,
          lowerQuartile = round_js lowerQuarterMarker DECIMAL_POINT,
          upperQuartile = round_js upperQuarterMarker DECIMAL_POINT\<rparr>)"

text \<open>Three points of values 0, 0.125 and 0.25, and three points of values 8, 4 and 15.\<close>

definition eighths :: heap where
  "eighths =
     [\<lparr>order = 0, x = Some ''2024-01-01'', value = Some (Num 0), status = NORMAL\<rparr>,
      \<lparr>order = 1, x = Some ''2024-01-02'', value = Some (Num 0.125), status = NORMAL\<rparr>,
      \<lparr>order = 2, x = Some ''2024-01-03'', value = Some (Num 0.25), status = NORMAL\<rparr>]"

definition three_points :: heap where
  "three_points =
     [\<lparr>order = 0, x = Some ''2024-01-01'', value = Some (Num 8), status = NORMAL\<rparr>,
      \<lparr>order = 1, x = Some ''2024-01-02'', value = Some (Num 4), status = NORMAL\<rparr>,
      \<lparr>order = 2, x = Some ''2024-01-03'', value = Some (Num 15), status = NORMAL\<rparr>]"

text \<open>
  The rows that the cleaning drops, in the words of the specification: \<open>x\<close> is absent,
  or the value is absent and not zero.
\<close>

definition spec_dropped :: "DataValue \<Rightarrow> bool" where
  "spec_dropped d = (x d = None \<or> (value d = None \<and> value d \<noteq> Some (Num 0)))"

text \<open>
  The rows that \<^verbatim>\<open>removeAllNulls\<close> drops: \<open>x\<close> is absent or the empty string, or the
  value is absent or \<^verbatim>\<open>NaN\<close>.
\<close>

definition dropped :: "DataValue \<Rightarrow> bool" where
  "dropped d = (x d = None \<or> x d = Some [] \<or> value d = None \<or> value d = Some NaN)"

text \<open>
  Five rows: two that are dropped (an empty date, a value that is \<^verbatim>\<open>NaN\<close>) and three
  that are kept, of which two share the earlier date; one of these has the value zero.
\<close>

definition raw_rows :: heap where
  "raw_rows =
     [\<lparr>order = 0, x = Some ''2024-01-02'', value = Some (Num 5), status = NORMAL\<rparr>,
      \<lparr>order = 1, x = Some [], value = Some (Num 7), status = NORMAL\<rparr>,
      \<lparr>order = 2, x = Some ''2024-01-01'', value = Some (Num 0), status = NORMAL\<rparr>,
      \<lparr>order = 3, x = Some ''2024-01-01'', value = Some NaN, status = NORMAL\<rparr>,
      \<lparr>order = 4, x = Some ''2024-01-01'', value = Some (Num 3), status = NORMAL\<rparr>]"

text \<open>
  Three rows that are kept, the second with a date that does not parse between two
  dates that do and are not in ascending order.
\<close>

definition unparsed_rows :: heap where
  "unparsed_rows =
     [\<lparr>order = 0, x = Some ''2024-01-02'', value = Some (Num 5), status = NORMAL\<rparr>,
      \<lparr>order = 1, x = Some ''?'', value = Some (Num 7), status = NORMAL\<rparr>,
      \<lparr>order = 2, x = Some ''2024-01-01'', value = Some (Num 3), status = NORMAL\<rparr>]"

section \<open>Binary64 arithmetic\<close>

text \<open>
  The exponent of a positive real brackets it between two powers of 2; \<open>binary64\<close> is
  monotone, and in the range of the normal values its relative error is at most
  \<open>2^(-53)\<close>.
\<close>

lemma pow2_powi: "pow2 e = 2 powi e"
  by (simp add: pow2_def power_int_def power_one_over inverse_eq_divide)

lemma pow2_pos [simp]: "0 < pow2 e"
  by (simp add: pow2_powi)

lemma pow2_add: "pow2 (a + b) = pow2 a * pow2 b"
  by (simp add: pow2_powi power_int_add)

lemma pow2_mono: "a \<le> b \<Longrightarrow> pow2 a \<le> pow2 b"
  by (simp add: pow2_powi power_int_increasing)

lemma pow2_nat: "0 \<le> e \<Longrightarrow> pow2 e = 2 ^ nat e"
  by (simp add: pow2_def)

lemma exponent_bounds:
  assumes "0 < a"
  shows "pow2 (exponent a) \<le> a \<and> a < pow2 (exponent a + 1)"
proof (cases "1 \<le> a")
  case True
  let ?k = "\<lfloor>a\<rfloor>"
  have k: "0 < ?k" using True by linarith
  from bitlen_bounds [OF k] have lo: "2 ^ nat (bitlen ?k - 1) \<le> ?k" and hi: "?k < 2 ^ nat (bitlen ?k)"
    by simp_all
  have b1: "1 \<le> bitlen ?k" using k by (simp add: bitlen_alt_def)
  have e: "exponent a = bitlen ?k - 1" using True by (simp add: exponent_def)
  from lo have "of_int (2 ^ nat (bitlen ?k - 1)) \<le> a" by (simp only: le_floor_iff)
  then have 1: "pow2 (exponent a) \<le> a" unfolding e using b1 by (simp add: pow2_nat)
  from hi have "a < of_int (2 ^ nat (bitlen ?k))" by (simp only: floor_less_iff)
  then have 2: "a < pow2 (exponent a + 1)" unfolding e using b1 by (simp add: pow2_nat)
  from 1 2 show ?thesis ..
next
  case False
  let ?c = "\<lceil>1 / a\<rceil> - 1"
  let ?n = "bitlen ?c"
  have "1 < 1 / a" using False assms by simp
  then have c: "0 < ?c" by linarith
  from bitlen_bounds [OF c] have lo: "2 ^ nat (?n - 1) \<le> ?c" and hi: "?c < 2 ^ nat ?n"
    by simp_all
  have n1: "1 \<le> ?n" using c by (simp add: bitlen_alt_def)
  have e: "exponent a = - ?n" using False by (simp add: exponent_def)
  from hi have "\<lceil>1 / a\<rceil> \<le> 2 ^ nat ?n" by simp
  then have "1 / a \<le> of_int (2 ^ nat ?n)" by (simp only: ceiling_le_iff)
  then have "1 / a \<le> 2 ^ nat ?n" by simp
  then have "1 \<le> 2 ^ nat ?n * a" using assms by (simp add: field_simps)
  then have "1 / 2 ^ nat ?n \<le> a" by (simp add: field_simps)
  then have 1: "pow2 (exponent a) \<le> a" unfolding e using n1 by (simp add: pow2_def)
  from lo have "2 ^ nat (?n - 1) < \<lceil>1 / a\<rceil>" by simp
  then have "of_int (2 ^ nat (?n - 1)) < 1 / a" by (simp only: less_ceiling_iff)
  then have "2 ^ nat (?n - 1) < 1 / a" by simp
  then have "2 ^ nat (?n - 1) * a < 1" using assms by (simp add: field_simps)
  then have "a < 1 / 2 ^ nat (?n - 1)" by (simp add: field_simps)
  moreover have "pow2 (exponent a + 1) = 1 / 2 ^ nat (?n - 1)"
    unfolding e using n1 by (cases "?n = 1") (simp_all add: pow2_def)
  ultimately have 2: "a < pow2 (exponent a + 1)" by simp
  from 1 2 show ?thesis ..
qed

lemma round_half_even_cases:
  "round_half_even y = \<lfloor>y\<rfloor> \<and> y - of_int \<lfloor>y\<rfloor> \<le> 1 / 2 \<or>
   round_half_even y = \<lfloor>y\<rfloor> + 1 \<and> 1 / 2 \<le> y - of_int \<lfloor>y\<rfloor>"
  by (simp add: round_half_even_def Let_def)

lemma round_half_even_near: "\<bar>of_int (round_half_even y) - y\<bar> \<le> 1 / 2"
  using round_half_even_cases [of y] by (auto; linarith)

lemma round_half_even_of_int [simp]: "round_half_even (of_int k) = k"
  by (simp add: round_half_even_def)

lemma round_half_even_mono:
  assumes "y \<le> z"
  shows "round_half_even y \<le> round_half_even z"
proof (cases "\<lfloor>y\<rfloor> = \<lfloor>z\<rfloor>")
  case True
  with assms have "y - of_int \<lfloor>y\<rfloor> \<le> z - of_int \<lfloor>z\<rfloor>" by simp
  with True show ?thesis by (simp add: round_half_even_def Let_def)
next
  case False
  with assms have "\<lfloor>y\<rfloor> + 1 \<le> \<lfloor>z\<rfloor>" using floor_mono [OF assms] by linarith
  with round_half_even_cases [of y] round_half_even_cases [of z] show ?thesis by linarith
qed


lemma pow2_strict_mono: "a < b \<Longrightarrow> pow2 a < pow2 b"
  by (simp add: pow2_powi power_int_strict_increasing)

lemma pow2_le_iff: "pow2 a \<le> pow2 b \<longleftrightarrow> a \<le> b"
  using pow2_mono [of a b] pow2_strict_mono [of b a] by (auto simp: not_le [symmetric])

lemma pow2_less_iff: "pow2 a < pow2 b \<longleftrightarrow> a < b"
  using pow2_mono [of b a] pow2_strict_mono [of a b] by (auto simp: not_le [symmetric])

lemma pow2_of_int: "0 \<le> e \<Longrightarrow> pow2 e = of_int (2 ^ nat e)"
  by (simp add: pow2_nat)

lemma exponent_mono:
  assumes "0 < a" and "a \<le> b"
  shows "exponent a \<le> exponent b"
proof -
  have "pow2 (exponent a) \<le> a" using exponent_bounds [OF assms(1)] ..
  also note assms(2)
  also have "b < pow2 (exponent b + 1)" using exponent_bounds [of b] assms by simp
  finally show ?thesis by (simp add: pow2_less_iff)
qed

lemma ulp_pos [simp]: "0 < ulp a"
  by (simp add: ulp_def)

lemma ulp_nonneg [simp]: "0 \<le> ulp a"
  by (simp add: ulp_def less_imp_le)

lemma ulp_neq_0 [simp]: "ulp a \<noteq> 0"
  using pow2_pos [of "max (exponent a) (- 1022) - 52"] unfolding ulp_def by linarith

lemma round_half_even_0 [simp]: "round_half_even 0 = 0"
  by (simp add: round_half_even_def)

lemma pow2_minus_52: "pow2 (e - 52) = pow2 e / 2 ^ 52"
proof -
  have "pow2 (e - 52) = pow2 (e + (- 52))" by simp
  also have "\<dots> = pow2 e * pow2 (- 52)" by (rule pow2_add)
  also have "pow2 (- 52) = 1 / 2 ^ 52" by (simp add: pow2_def)
  finally show ?thesis by simp
qed

lemma pow2_53_ulp: "pow2 53 * ulp a = pow2 (max (exponent a) (- 1022) + 1)"
proof -
  have "pow2 53 * ulp a = pow2 (53 + (max (exponent a) (- 1022) - 52))"
    unfolding ulp_def by (rule pow2_add [symmetric])
  then show ?thesis by (simp add: add.commute)
qed

lemma pow2_52_ulp: "pow2 52 * ulp a = pow2 (max (exponent a) (- 1022))"
proof -
  have "pow2 52 * ulp a = pow2 (52 + (max (exponent a) (- 1022) - 52))"
    unfolding ulp_def by (rule pow2_add [symmetric])
  then show ?thesis by simp
qed

lemma binary64_nearest:
  "binary64 r =
     (if r = 0 then Num 0
      else if pow2 1024 \<le> nearest \<bar>r\<bar> then (if r < 0 then NegInfinity else Infinity)
      else Num (if r < 0 then - nearest \<bar>r\<bar> else nearest \<bar>r\<bar>))"
  by (simp add: binary64_def nearest_def ulp_def Let_def)

lemma nearest_nonneg: "0 \<le> a \<Longrightarrow> 0 \<le> nearest a"
proof -
  assume "0 \<le> a"
  then have "0 \<le> a / ulp a" by simp
  then have "round_half_even 0 \<le> round_half_even (a / ulp a)"
    by (rule round_half_even_mono)
  then show ?thesis by (simp add: nearest_def)
qed

lemma nearest_error: "\<bar>nearest a - a\<bar> \<le> ulp a / 2"
proof -
  have "nearest a - a = (of_int (round_half_even (a / ulp a)) - a / ulp a) * ulp a"
    by (simp add: nearest_def left_diff_distrib)
  then have "\<bar>nearest a - a\<bar> = \<bar>of_int (round_half_even (a / ulp a)) - a / ulp a\<bar> * ulp a"
    by (simp add: abs_mult)
  also have "\<dots> \<le> 1 / 2 * ulp a"
    by (intro mult_right_mono round_half_even_near) simp
  finally show ?thesis by simp
qed

lemma nearest_upper:
  assumes "0 < a"
  shows "nearest a \<le> pow2 (max (exponent a) (- 1022) + 1)"
proof -
  let ?e = "max (exponent a) (- 1022)"
  have "a < pow2 (exponent a + 1)" using exponent_bounds [OF assms] ..
  also have "\<dots> \<le> pow2 (?e + 1)" by (simp add: pow2_le_iff)
  also have "\<dots> = pow2 53 * ulp a" by (simp only: pow2_53_ulp)
  finally have "a / ulp a \<le> pow2 53" by (simp add: field_simps)
  then have "a / ulp a \<le> of_int (2 ^ 53)" by (simp only: pow2_of_int) simp
  then have "round_half_even (a / ulp a) \<le> round_half_even (of_int (2 ^ 53))"
    by (rule round_half_even_mono)
  then have "round_half_even (a / ulp a) \<le> 2 ^ 53"
    by (simp only: round_half_even_of_int)
  then have "real_of_int (round_half_even (a / ulp a)) \<le> real_of_int (2 ^ 53)"
    by (simp only: of_int_le_iff)
  then have "real_of_int (round_half_even (a / ulp a)) \<le> pow2 53" by (simp add: pow2_def)
  then have "nearest a \<le> pow2 53 * ulp a" by (simp add: nearest_def)
  then show ?thesis by (simp only: pow2_53_ulp)
qed

lemma nearest_lower:
  assumes "0 < a" and "- 1022 \<le> exponent a"
  shows "pow2 (exponent a) \<le> nearest a"
proof -
  have m: "max (exponent a) (- 1022) = exponent a" using assms(2) by simp
  have u: "pow2 52 * ulp a = pow2 (exponent a)" by (simp only: pow2_52_ulp m)
  moreover have "pow2 (exponent a) \<le> a" using exponent_bounds [OF assms(1)] ..
  ultimately have "pow2 52 \<le> a / ulp a" by (simp add: field_simps)
  then have "of_int (2 ^ 52) \<le> a / ulp a" by (simp only: pow2_of_int) simp
  then have "round_half_even (of_int (2 ^ 52)) \<le> round_half_even (a / ulp a)"
    by (rule round_half_even_mono)
  then have "2 ^ 52 \<le> round_half_even (a / ulp a)"
    by (simp only: round_half_even_of_int)
  then have "real_of_int (2 ^ 52) \<le> real_of_int (round_half_even (a / ulp a))"
    by (simp only: of_int_le_iff)
  then have "pow2 52 \<le> real_of_int (round_half_even (a / ulp a))" by (simp add: pow2_def)
  then have "pow2 52 * ulp a \<le> nearest a" by (simp add: nearest_def)
  then show ?thesis by (simp only: u)
qed

lemma nearest_mono:
  assumes "0 < a" and "a \<le> b"
  shows "nearest a \<le> nearest b"
proof -
  let ?ea = "max (exponent a) (- 1022)" and ?eb = "max (exponent b) (- 1022)"
  have b: "0 < b" using assms by simp
  have le: "?ea \<le> ?eb" using exponent_mono [OF assms] by simp
  show ?thesis
  proof (cases "?ea = ?eb")
    case True
    then have u: "ulp a = ulp b" by (simp add: ulp_def)
    have "a / ulp b \<le> b / ulp b" using assms(2) by (intro divide_right_mono) simp_all
    then have "round_half_even (a / ulp b) \<le> round_half_even (b / ulp b)"
      by (rule round_half_even_mono)
    then show ?thesis by (simp add: nearest_def u)
  next
    case False
    with le have lt: "?ea < ?eb" by linarith
    then have eb: "?eb = exponent b" and ge: "- 1022 \<le> exponent b" by linarith+
    have "nearest a \<le> pow2 (?ea + 1)" using assms(1) by (rule nearest_upper)
    also have "\<dots> \<le> pow2 (exponent b)" unfolding pow2_le_iff using lt eb by linarith
    also have "\<dots> \<le> nearest b" using b ge by (rule nearest_lower)
    finally show ?thesis .
  qed
qed

lemma binary64_neg: "binary64 (- r) = js_neg (binary64 r)"
  by (simp add: binary64_nearest)

lemma binary64_mono:
  assumes "a \<le> b"
  shows "\<not> js_lt (binary64 b) (binary64 a)"
proof -
  consider "a \<le> 0" "0 \<le> b" | "0 < a" | "b < 0" using assms by linarith
  then show ?thesis
  proof cases
    case 1
    have "0 \<le> nearest \<bar>a\<bar>" "0 \<le> nearest \<bar>b\<bar>" by (simp_all add: nearest_nonneg)
    with 1 show ?thesis by (simp add: binary64_nearest)
  next
    case 2
    with assms have "nearest \<bar>a\<bar> \<le> nearest \<bar>b\<bar>" by (intro nearest_mono) simp_all
    with 2 assms show ?thesis by (simp add: binary64_nearest)
  next
    case 3
    with assms have "nearest \<bar>b\<bar> \<le> nearest \<bar>a\<bar>" by (intro nearest_mono) simp_all
    with 3 assms show ?thesis by (simp add: binary64_nearest)
  qed
qed

lemma binary64_error:
  assumes "pow2 (- 1022) \<le> \<bar>r\<bar>" and "\<bar>r\<bar> < pow2 1023"
  shows "\<exists>v. binary64 r = Num v \<and> \<bar>v - r\<bar> \<le> \<bar>r\<bar> / 2 ^ 53"
proof -
  let ?a = "\<bar>r\<bar>"
  have a: "0 < ?a" using assms(1) pow2_pos [of "- 1022"] by linarith
  have "pow2 (- 1022) < pow2 (exponent ?a + 1)"
    using exponent_bounds [OF a] assms(1) by linarith
  then have lo: "- 1022 \<le> exponent ?a" by (simp add: pow2_less_iff)
  have "pow2 (exponent ?a) < pow2 1023" using exponent_bounds [OF a] assms(2) by linarith
  then have hi: "exponent ?a < 1023" by (simp add: pow2_less_iff)
  have "nearest ?a \<le> pow2 (max (exponent ?a) (- 1022) + 1)" using a by (rule nearest_upper)
  also have "\<dots> < pow2 1024" using lo hi by (simp add: pow2_less_iff)
  finally have fin: "\<not> pow2 1024 \<le> nearest ?a" by simp
  have "max (exponent ?a) (- 1022) = exponent ?a" using lo by simp
  then have u: "ulp ?a = pow2 (exponent ?a) / 2 ^ 52"
    by (simp only: ulp_def pow2_minus_52)
  have "\<bar>nearest ?a - ?a\<bar> \<le> ulp ?a / 2" by (rule nearest_error)
  also have "\<dots> = pow2 (exponent ?a) / 2 ^ 53" by (simp add: u)
  also have "\<dots> \<le> ?a / 2 ^ 53"
    using exponent_bounds [OF a] by (simp add: divide_right_mono)
  finally have e: "\<bar>nearest ?a - ?a\<bar> \<le> ?a / 2 ^ 53" .
  show ?thesis
  proof (cases "r < 0")
    case True
    with e have "\<bar>- nearest ?a - r\<bar> \<le> ?a / 2 ^ 53" by (simp add: abs_minus_commute)
    with True fin show ?thesis by (simp add: binary64_nearest)
  next
    case False
    with e a fin show ?thesis by (simp add: binary64_nearest)
  qed
qed


lemma binary64_0 [simp]: "binary64 0 = Num 0"
  by (simp add: binary64_def)

lemma not_negative_binary64: "0 \<le> r \<Longrightarrow> not_negative (binary64 r)"
  using nearest_nonneg [of "\<bar>r\<bar>"] by (simp add: binary64_nearest)

subsection \<open>Evaluation and rounding\<close>

text \<open>
  The rules \<open>binary64_eval\<close> compute \<open>binary64\<close> on a literal; the bound value of a
  \<open>let\<close> is to be computed before its body (\<open>let_weak_cong\<close>).
\<close>

lemma bitlen_numeral [simp]:
  "bitlen (numeral (Num.Bit0 n)) = bitlen (numeral n) + 1"
  "bitlen (numeral (Num.Bit1 n)) = bitlen (numeral n) + 1"
  "bitlen 1 = 1"
  by (subst compute_bitlen, simp)+

lemmas binary64_eval = binary64_def exponent_def pow2_def round_half_even_def Let_def

lemma round_js_Num:
  "round_js (Num n) DECIMAL_POINT = js_div (Math_round (binary64 (n * 100))) (Num 100)"
  by (simp add: round_js_def DECIMAL_POINT_def)

lemma round_js_finite:
  assumes "binary64 (n * 100) = Num p"
  shows "round_js (Num n) DECIMAL_POINT = binary64 (of_int \<lfloor>p + 1 / 2\<rfloor> / 100)"
  using assms by (simp add: round_js_Num)

lemma round_js_idem_range:
  assumes "\<bar>k\<bar> \<le> 2 ^ 50"
  shows "round_js (binary64 (of_int k / 100)) DECIMAL_POINT = binary64 (of_int k / 100)"
proof (cases "k = 0")
  case True
  then show ?thesis by (simp add: round_js_Num)
next
  case False
  let ?r = "real_of_int k / 100"
  have lo: "pow2 (- 1022) \<le> 1 / 128" using pow2_mono [of "- 1022" "- 7"] by (simp add: pow2_def)
  have hi: "2 ^ 51 \<le> pow2 1023" using pow2_mono [of 51 1023] by (simp add: pow2_def)
  have k1: "1 \<le> \<bar>real_of_int k\<bar>" using False by linarith
  have "real_of_int \<bar>k\<bar> \<le> real_of_int (2 ^ 50)" using assms by (simp only: of_int_le_iff)
  then have k2: "\<bar>real_of_int k\<bar> \<le> 2 ^ 50" by simp
  have "pow2 (- 1022) \<le> \<bar>?r\<bar>" using lo k1 by simp
  moreover have "\<bar>?r\<bar> < pow2 1023" using hi k2 by simp
  ultimately obtain q where q: "binary64 ?r = Num q" "\<bar>q - ?r\<bar> \<le> \<bar>?r\<bar> / 2 ^ 53"
    using binary64_error by blast
  let ?s = "q * 100"
  have "\<bar>?s - real_of_int k\<bar> = \<bar>q - ?r\<bar> * 100" by (simp add: abs_if)
  also have "\<dots> \<le> \<bar>?r\<bar> / 2 ^ 53 * 100" using q(2) by simp
  also have "\<dots> \<le> 1 / 8" using k2 by simp
  finally have s: "\<bar>?s - real_of_int k\<bar> \<le> 1 / 8" .
  have s1: "7 / 8 \<le> \<bar>?s\<bar>" using s k1 by linarith
  have s2: "\<bar>?s\<bar> \<le> 2 ^ 50 + 1 / 8" using s k2 by linarith
  have "pow2 (- 1022) \<le> \<bar>?s\<bar>" using lo s1 by linarith
  moreover have "\<bar>?s\<bar> < pow2 1023" using hi s2 by simp
  ultimately obtain p where p: "binary64 ?s = Num p" "\<bar>p - ?s\<bar> \<le> \<bar>?s\<bar> / 2 ^ 53"
    using binary64_error by blast
  have "\<bar>?s\<bar> / 2 ^ 53 \<le> (2 ^ 50 + 1 / 8) / 2 ^ 53" using s2 by (simp add: divide_right_mono)
  also have "\<dots> \<le> 1 / 4" by simp
  finally have "\<bar>p - ?s\<bar> \<le> 1 / 4" using p(2) by linarith
  with s have "real_of_int k \<le> p + 1 / 2" "p + 1 / 2 < real_of_int k + 1" by linarith+
  then have "\<lfloor>p + 1 / 2\<rfloor> = k" by (intro floor_unique)
  then show ?thesis unfolding q(1) using p(1) by (simp add: round_js_finite q(1))
qed


subsection \<open>Order\<close>

lemma js_lt_NegInfinity [simp]: "js_lt a NegInfinity = False"
  by (cases a) simp_all

lemma js_lt_Infinity [simp]: "js_lt Infinity b = False"
  by (cases b) simp_all

lemma js_lt_NaN [simp]: "js_lt a NaN = False"
  by (cases a) simp_all

lemma js_add_mono: "\<not> js_lt b a \<Longrightarrow> \<not> js_lt (js_add b c) (js_add a c)"
  by (cases a; cases b; cases c) (simp_all add: binary64_mono)

lemma js_mul_mono: "\<not> js_lt b a \<Longrightarrow> 0 < c \<Longrightarrow> \<not> js_lt (js_mul b (Num c)) (js_mul a (Num c))"
  by (cases a; cases b) (simp_all add: binary64_mono)

lemma js_div_mono: "\<not> js_lt b a \<Longrightarrow> 0 < c \<Longrightarrow> \<not> js_lt (js_div b (Num c)) (js_div a (Num c))"
  by (cases a; cases b) (simp_all add: binary64_mono divide_right_mono)

lemma Math_round_mono: "\<not> js_lt b a \<Longrightarrow> \<not> js_lt (Math_round b) (Math_round a)"
  by (cases a; cases b) (auto simp: not_less intro!: floor_mono)

lemma round_js_mono:
  "\<not> js_lt b a \<Longrightarrow> \<not> js_lt (round_js b DECIMAL_POINT) (round_js a DECIMAL_POINT)"
  unfolding round_js_def Let_def DECIMAL_POINT_def
  by (intro js_div_mono Math_round_mono js_mul_mono) simp_all

lemma not_negative_abs: "not_negative (Math_abs a)"
  by (cases a) simp_all

lemma not_negative_add: "not_negative a \<Longrightarrow> not_negative b \<Longrightarrow> not_negative (js_add a b)"
  by (cases a; cases b) (simp_all add: not_negative_binary64)

lemma not_negative_div: "not_negative a \<Longrightarrow> 0 < n \<Longrightarrow> not_negative (js_div a (Num n))"
  by (cases a) (simp_all add: not_negative_binary64)

lemma not_negative_mul: "not_negative a \<Longrightarrow> not_negative b \<Longrightarrow> not_negative (js_mul a b)"
  by (cases a; cases b) (simp_all add: not_negative_binary64)

lemma not_negative_Math_round: "not_negative a \<Longrightarrow> not_negative (Math_round a)"
  by (cases a) simp_all

lemma not_negative_round: "not_negative a \<Longrightarrow> not_negative (round_js a DECIMAL_POINT)"
  unfolding round_js_def Let_def DECIMAL_POINT_def
  by (intro not_negative_div not_negative_Math_round not_negative_mul) simp_all

lemma not_negative_foldl:
  "not_negative s \<Longrightarrow> \<forall>b\<in>set bs. not_negative (f b) \<Longrightarrow>
     not_negative (foldl (\<lambda>a b. js_add a (f b)) s bs)"
  by (induction bs arbitrary: s) (simp_all add: not_negative_add)

lemma js_sub_le_js_add: "not_negative d \<Longrightarrow> \<not> js_lt (js_add a d) (js_sub a d)"
  by (cases a; cases d) (simp_all add: js_sub_def binary64_mono)

lemma markers_ordered:
  assumes "not_negative delta"
  shows "\<not> js_lt (round_js (js_div (js_add (js_add a delta) a) (Num 2)) DECIMAL_POINT)
                 (round_js (js_div (js_add (js_sub a delta) a) (Num 2)) DECIMAL_POINT)"
  by (intro round_js_mono js_div_mono js_add_mono js_sub_le_js_add assms) simp

section \<open>The store\<close>

lemma length_set_status [simp]: "length (set_status h r s) = length h"
  by (simp add: set_status_def)

lemma set_status_nth:
  "set_status h r s ! r' = (if r' = r \<and> r < length h then (h ! r)\<lparr>status := s\<rparr> else h ! r')"
  by (cases "r < length h") (auto simp: set_status_def list_update_beyond)

lemma num_value_set_status [simp]: "num_value (set_status h r s ! r') = num_value (h ! r')"
  by (simp add: set_status_nth num_value_def)

lemma order_set_status [simp]: "order (set_status h r s ! r') = order (h ! r')"
  by (simp add: set_status_nth)

lemma x_set_status [simp]: "x (set_status h r s ! r') = x (h ! r')"
  by (simp add: set_status_nth)

lemma value_set_status [simp]: "value (set_status h r s ! r') = value (h ! r')"
  by (simp add: set_status_nth)

lemma status_set_status:
  "status (set_status h r s ! r') = (if r' = r \<and> r < length h then s else status (h ! r'))"
  by (simp add: set_status_nth)

lemma set_all_Nil [simp]: "set_all h [] s = h"
  by (simp add: set_all_def)

lemma set_all_Cons [simp]: "set_all h (r # rs) s = set_all (set_status h r s) rs s"
  by (simp add: set_all_def)

lemma length_set_all [simp]: "length (set_all h rs s) = length h"
  by (induction rs arbitrary: h) simp_all

lemma num_value_set_all [simp]: "num_value (set_all h rs s ! r') = num_value (h ! r')"
  by (induction rs arbitrary: h) simp_all

lemma order_set_all [simp]: "order (set_all h rs s ! r') = order (h ! r')"
  by (induction rs arbitrary: h) simp_all

lemma x_set_all [simp]: "x (set_all h rs s ! r') = x (h ! r')"
  by (induction rs arbitrary: h) simp_all

lemma value_set_all [simp]: "value (set_all h rs s ! r') = value (h ! r')"
  by (induction rs arbitrary: h) simp_all

lemma status_set_all:
  "status (set_all h rs s ! r') = (if r' \<in> set rs \<and> r' < length h then s else status (h ! r'))"
  by (induction rs arbitrary: h) (auto simp: status_set_status)

lemma foldl_set_status_index:
  "foldl (\<lambda>h j. set_status h (data ! j) s) h js = set_all h (map ((!) data) js) s"
  by (induction js arbitrary: h) simp_all

lemma reset_status_set_all: "reset_status h data = set_all h data NORMAL"
  by (simp add: reset_status_def set_all_def)

section \<open>Movements\<close>

lemma getMovements_fold:
  assumes "\<forall>r\<in>set xdata. r < length h" and "Suc n \<le> length xdata"
  shows "foldl (getMovements_step xdata) (h, []) [1..<Suc n] =
           (h @ map (movement h xdata) [1..<Suc n], [length h..<length h + n])"
  using assms(2)
proof (induction n)
  case 0
  then show ?case by simp
next
  case (Suc n)
  then have k: "Suc n < length xdata" "n < length xdata" by simp_all
  have r: "xdata ! Suc n < length h" "xdata ! n < length h"
    using assms(1) k by simp_all
  from Suc have IH: "foldl (getMovements_step xdata) (h, []) [1..<Suc n] =
           (h @ map (movement h xdata) [1..<Suc n], [length h..<length h + n])" by simp
  have "foldl (getMovements_step xdata) (h, []) [1..<Suc (Suc n)] =
          getMovements_step xdata (h @ map (movement h xdata) [1..<Suc n], [length h..<length h + n]) (Suc n)"
    using IH by simp
  also have "\<dots> = (h @ map (movement h xdata) [1..<Suc n] @ [movement h xdata (Suc n)],
                     [length h..<length h + n] @ [length h + n])"
    using r by (simp add: getMovements_step_def new_object_def nth_append movement_def)
  also have "\<dots> = (h @ map (movement h xdata) [1..<Suc (Suc n)], [length h..<length h + Suc n])"
    by simp
  finally show ?case .
qed

lemma getMovements_eq:
  assumes "\<forall>r\<in>set xdata. r < length h"
  shows "getMovements h xdata =
           (h @ map (movement h xdata) [1..<length xdata],
            [length h..<length h + (length xdata - 1)])"
proof (cases xdata)
  case Nil
  then show ?thesis by (simp add: getMovements_def)
next
  case (Cons a as)
  then show ?thesis
    unfolding getMovements_def using getMovements_fold [OF assms, of "length as"] by simp
qed

section \<open>The mask of \<^verbatim>\<open>checkRunOfEight\<close>\<close>

lemma runOfEight_prime_bits:
  "n \<le> 8 \<Longrightarrow> bit (foldl (runOfEight_prime h data avg) 0 [0..<n]) b \<longleftrightarrow> b < n \<and> above h data avg b"
proof (induction n)
  case 0
  then show ?case by simp
next
  case (Suc n)
  then have "n mod 8 = n" by simp
  with Suc show ?case
    by (auto simp: runOfEight_prime_def above_def bit_simps less_Suc_eq)
qed

lemma mask_bits_prime: "mask_bits h data avg 7 (foldl (runOfEight_prime h data avg) 0 [0..<7])"
  unfolding mask_bits_def
proof
  fix b
  have "bit (foldl (runOfEight_prime h data avg) 0 [0..<7]) b \<longleftrightarrow> b < 7 \<and> above h data avg b"
    by (rule runOfEight_prime_bits) simp
  also have "\<dots> \<longleftrightarrow> (\<exists>j. 7 - 8 \<le> j \<and> j < 7 \<and> j mod 8 = b \<and> above h data avg j)"
    by auto
  finally show "bit (foldl (runOfEight_prime h data avg) 0 [0..<7]) b \<longleftrightarrow>
      (\<exists>j. 7 - 8 \<le> j \<and> j < 7 \<and> j mod 8 = b \<and> above h data avg j)" .
qed

lemma mod8_close: "j \<le> j' \<Longrightarrow> j' < j + 8 \<Longrightarrow> j mod 8 = j' mod 8 \<Longrightarrow> j = (j'::nat)"
proof -
  assume a: "j \<le> j'" "j' < j + 8" "j mod 8 = j' mod 8"
  then have "8 dvd j' - j" using mod_eq_dvd_iff_nat [of j j' 8] by simp
  moreover have "j' - j < 8" using a by simp
  ultimately have "j' - j = 0" using nat_dvd_not_less [of "j' - j" 8] by (cases "j' - j = 0") simp_all
  with a show ?thesis by simp
qed

lemma window_arith1: "k - 8 \<le> j \<Longrightarrow> j < k \<Longrightarrow> j mod 8 \<noteq> k mod 8 \<Longrightarrow> Suc k - 8 \<le> (j::nat)"
proof (rule ccontr)
  assume a: "k - 8 \<le> j" "j < k" "j mod 8 \<noteq> k mod 8" and n: "\<not> Suc k - 8 \<le> j"
  then have "k = j + 8" by simp
  then have "k mod 8 = j mod 8" by simp
  with a show False by simp
qed

lemma window_arith2: "Suc k - 8 \<le> j \<Longrightarrow> j < Suc k \<Longrightarrow> j mod 8 = k mod 8 \<Longrightarrow> j = (k::nat)"
  using mod8_close [of j k] by simp

lemma window_arith3: "7 \<le> i \<Longrightarrow> b < 8 \<Longrightarrow> \<exists>j::nat. Suc i - 8 \<le> j \<and> j < Suc i \<and> j mod 8 = b"
proof (induction i rule: dec_induct)
  case base
  then show ?case by (intro exI [of _ b]) simp
next
  case (step n)
  then obtain j where j: "Suc n - 8 \<le> j" "j < Suc n" "j mod 8 = b" by blast
  show ?case
  proof (cases "Suc (Suc n) - 8 \<le> j")
    case True
    with j show ?thesis by (intro exI [of _ j]) simp
  next
    case False
    with j step.hyps have "j + 8 = Suc n" by simp
    with j show ?thesis by (intro exI [of _ "j + 8"]) simp
  qed
qed

lemma window_arith4:
  assumes "Suc i - 8 \<le> j" "j < Suc i" "Suc i - 8 \<le> j'" "j' < Suc i" "j mod 8 = j' mod 8"
  shows "j = (j'::nat)"
proof (cases "j \<le> j'")
  case True
  moreover have "j' < j + 8" using assms(1,4) by linarith
  ultimately show ?thesis using assms(5) by (rule mod8_close)
next
  case False
  then have "j' \<le> j" by simp
  moreover have "j < j' + 8" using assms(2,3) by linarith
  moreover have "j' mod 8 = j mod 8" using assms(5) by (rule sym)
  ultimately have "j' = j" by (rule mod8_close)
  then show ?thesis by (rule sym)
qed

lemma mask_bits_step:
  assumes "mask_bits h data avg k m"
  shows "mask_bits h data avg (Suc k)
           (if above h data avg k then m OR push_bit (k mod 8) 1 else m AND NOT (push_bit (k mod 8) 1))"
  unfolding mask_bits_def
proof
  fix b
  let ?m' = "if above h data avg k then m OR push_bit (k mod 8) 1 else m AND NOT (push_bit (k mod 8) 1)"
  have old: "bit m b \<longleftrightarrow> (\<exists>j. k - 8 \<le> j \<and> j < k \<and> j mod 8 = b \<and> above h data avg j)"
    using assms by (simp add: mask_bits_def)
  have new: "bit ?m' b \<longleftrightarrow> (if b = k mod 8 then above h data avg k else bit m b)"
    by (auto simp: bit_simps)
  show "bit ?m' b \<longleftrightarrow> (\<exists>j. Suc k - 8 \<le> j \<and> j < Suc k \<and> j mod 8 = b \<and> above h data avg j)"
  proof (cases "b = k mod 8")
    case True
    have "(\<exists>j. Suc k - 8 \<le> j \<and> j < Suc k \<and> j mod 8 = b \<and> above h data avg j) \<longleftrightarrow> above h data avg k"
    proof
      assume "\<exists>j. Suc k - 8 \<le> j \<and> j < Suc k \<and> j mod 8 = b \<and> above h data avg j"
      then obtain j where j: "Suc k - 8 \<le> j" "j < Suc k" "j mod 8 = k mod 8" "above h data avg j"
        using True by blast
      from j(1-3) have "j = k" by (rule window_arith2)
      with j show "above h data avg k" by simp
    next
      assume "above h data avg k"
      with True show "\<exists>j. Suc k - 8 \<le> j \<and> j < Suc k \<and> j mod 8 = b \<and> above h data avg j"
        by (intro exI [of _ k]) simp
    qed
    with new True show ?thesis by simp
  next
    case False
    have "(\<exists>j. Suc k - 8 \<le> j \<and> j < Suc k \<and> j mod 8 = b \<and> above h data avg j) \<longleftrightarrow>
          (\<exists>j. k - 8 \<le> j \<and> j < k \<and> j mod 8 = b \<and> above h data avg j)" (is "?L \<longleftrightarrow> ?R")
    proof
      assume ?L
      then obtain j where j: "Suc k - 8 \<le> j" "j < Suc k" "j mod 8 = b" "above h data avg j" by blast
      with False have "j \<noteq> k" by auto
      with j have "k - 8 \<le> j" "j < k" by simp_all
      with j show ?R by blast
    next
      assume ?R
      then obtain j where j: "k - 8 \<le> j" "j < k" "j mod 8 = b" "above h data avg j" by blast
      with False have "Suc k - 8 \<le> j" using window_arith1 [of k j] by simp
      moreover have "j < Suc k" using j(2) by simp
      ultimately show ?L using j(3,4) by blast
    qed
    with new old False show ?thesis by simp
  qed
qed

lemma mask_bits_zero:
  assumes "mask_bits h data avg (Suc i) m"
  shows "m = 0 \<longleftrightarrow> (\<forall>j\<in>{i - 7..i}. \<not> above h data avg j)"
proof -
  have "m = 0 \<longleftrightarrow> (\<forall>b. \<not> bit m b)"
    by (simp add: bit_eq_iff)
  also have "\<dots> \<longleftrightarrow> (\<forall>j. Suc i - 8 \<le> j \<and> j < Suc i \<longrightarrow> \<not> above h data avg j)"
    using assms unfolding mask_bits_def by blast
  also have "\<dots> \<longleftrightarrow> (\<forall>j\<in>{i - 7..i}. \<not> above h data avg j)"
    by (auto simp: less_Suc_eq_le)
  finally show ?thesis .
qed

lemma mask_bits_255:
  assumes "mask_bits h data avg (Suc i) m" and "7 \<le> i"
  shows "m = 255 \<longleftrightarrow> (\<forall>j\<in>{i - 7..i}. above h data avg j)"
proof -
  have m: "bit m b \<longleftrightarrow> (\<exists>j. Suc i - 8 \<le> j \<and> j < Suc i \<and> j mod 8 = b \<and> above h data avg j)" for b
    using assms(1) by (simp add: mask_bits_def)
  have "(255::int) = mask 8" by (simp add: mask_eq_exp_minus_1)
  then have "m = 255 \<longleftrightarrow> (\<forall>b. bit m b \<longleftrightarrow> b < 8)"
    by (simp add: bit_eq_iff bit_mask_iff)
  also have "\<dots> \<longleftrightarrow> (\<forall>j. Suc i - 8 \<le> j \<and> j < Suc i \<longrightarrow> above h data avg j)" (is "?L \<longleftrightarrow> ?R")
  proof
    assume L: ?L
    show ?R
    proof (intro allI impI)
      fix j assume j: "Suc i - 8 \<le> j \<and> j < Suc i"
      have "bit m (j mod 8)" using L by simp
      then obtain j' where j': "Suc i - 8 \<le> j'" "j' < Suc i" "j' mod 8 = j mod 8" "above h data avg j'"
        using m by blast
      with j have "j' = j" using window_arith4 [of i j' j] by simp
      with j' show "above h data avg j" by simp
    qed
  next
    assume R: ?R
    show ?L
    proof
      fix b
      show "bit m b \<longleftrightarrow> b < 8"
      proof
        assume "bit m b"
        then obtain j where "j mod 8 = b" using m by blast
        then show "b < 8" by auto
      next
        assume "b < 8"
        with assms(2) obtain j where "Suc i - 8 \<le> j \<and> j < Suc i \<and> j mod 8 = b"
          using window_arith3 by blast
        with R show "bit m b" using m by blast
      qed
    qed
  qed
  also have "\<dots> \<longleftrightarrow> (\<forall>j\<in>{i - 7..i}. above h data avg j)"
    by (auto simp: less_Suc_eq_le)
  finally show ?thesis .
qed

section \<open>The loop of \<^verbatim>\<open>checkRunOfEight\<close>\<close>

lemma same_data_refl [simp]: "same_data h h"
  by (simp add: same_data_def)

lemma same_data_trans: "same_data h h' \<Longrightarrow> same_data h' h'' \<Longrightarrow> same_data h h''"
  by (simp add: same_data_def)

lemma same_data_set_status [simp]: "same_data h (set_status h r s)"
  by (simp add: same_data_def)

lemma same_data_set_all [simp]: "same_data h (set_all h rs s)"
  by (simp add: same_data_def)

lemma same_data_num_value: "same_data h h' \<Longrightarrow> num_value (h' ! r) = num_value (h ! r)"
  by (simp add: same_data_def num_value_def)

lemma same_data_length: "same_data h h' \<Longrightarrow> length h' = length h"
  by (simp add: same_data_def)

lemma runOfEight_loop_7:
  "runOfEight_loop h data avg 7 = (foldl (runOfEight_prime h data avg) 0 [0..<7], h)"
  by (simp add: runOfEight_loop_def)

lemma runOfEight_loop_Suc:
  "7 \<le> k \<Longrightarrow> runOfEight_loop h data avg (Suc k) =
     runOfEight_step data avg (runOfEight_loop h data avg k) k"
  by (simp add: runOfEight_loop_def)

lemma runOfEight_step_eq:
  assumes "mask_bits h data avg k m" and "7 \<le> k" and "same_data h hk"
  shows "runOfEight_step data avg (m, hk) k =
           (if above h data avg k then m OR push_bit (k mod 8) 1 else m AND NOT (push_bit (k mod 8) 1),
            if uniform_window h data avg k
            then set_all hk (map ((!) data) [k - 7..<Suc k]) RUN_OF_EIGHT_EXCEPTION else hk)"
proof -
  let ?m' = "if above h data avg k then m OR push_bit (k mod 8) 1 else m AND NOT (push_bit (k mod 8) 1)"
  have a: "js_gt (num_value (hk ! (data ! k))) avg = above h data avg k"
    using assms(3) by (simp add: above_def same_data_num_value)
  have mb: "mask_bits h data avg (Suc k) ?m'"
    using assms(1) by (rule mask_bits_step)
  have "(?m' = 0 \<or> ?m' = 255) = uniform_window h data avg k"
    unfolding uniform_window_def mask_bits_zero [OF mb] mask_bits_255 [OF mb assms(2)] by blast
  then show ?thesis
    unfolding runOfEight_step_def Let_def prod.case a foldl_set_status_index by simp
qed

lemma run_marked_7 [simp]: "\<not> run_marked h data avg 7 r"
  by (simp add: run_marked_def)

lemma run_marked_Suc:
  assumes "7 \<le> k"
  shows "run_marked h data avg (Suc k) r \<longleftrightarrow>
     run_marked h data avg k r \<or> (uniform_window h data avg k \<and> r \<in> (!) data ` {k - 7..k})"
proof -
  have *: "{7..<Suc k} = insert k {7..<k}"
    using assms by (simp add: atLeastLessThanSuc)
  show ?thesis
    unfolding run_marked_def * bex_simps by blast
qed

lemma status_set_window:
  "status (set_all hk (map ((!) data) [k - 7..<Suc k]) s ! r) =
     (if r \<in> (!) data ` {k - 7..k} \<and> r < length hk then s else status (hk ! r))"
proof -
  have "set (map ((!) data) [k - 7..<Suc k]) = (!) data ` {k - 7..k}"
    by (simp only: set_map set_upt atLeastLessThanSuc_atLeastAtMost)
  then show ?thesis
    unfolding status_set_all by simp
qed

lemma runOfEight_loop_inv:
  assumes "7 \<le> k"
  shows "mask_bits h data avg k (fst (runOfEight_loop h data avg k)) \<and>
         same_data h (snd (runOfEight_loop h data avg k)) \<and>
         (\<forall>r. status (snd (runOfEight_loop h data avg k) ! r) =
                (if r < length h \<and> run_marked h data avg k r
                 then RUN_OF_EIGHT_EXCEPTION else status (h ! r)))"
  using assms
proof (induction k rule: dec_induct)
  case base
  show ?case by (simp add: runOfEight_loop_7 mask_bits_prime)
next
  case (step k)
  obtain m hk where s: "runOfEight_loop h data avg k = (m, hk)" by (cases "runOfEight_loop h data avg k")
  with step.IH have m: "mask_bits h data avg k m" and sd: "same_data h hk"
    and st: "\<And>r. status (hk ! r) =
                (if r < length h \<and> run_marked h data avg k r
                 then RUN_OF_EIGHT_EXCEPTION else status (h ! r))"
    by simp_all
  have len: "length hk = length h" using sd by (rule same_data_length)
  have eq: "runOfEight_loop h data avg (Suc k) =
           (if above h data avg k then m OR push_bit (k mod 8) 1 else m AND NOT (push_bit (k mod 8) 1),
            if uniform_window h data avg k
            then set_all hk (map ((!) data) [k - 7..<Suc k]) RUN_OF_EIGHT_EXCEPTION else hk)"
    unfolding runOfEight_loop_Suc [OF step.hyps(1)] s
    using m step.hyps(1) sd by (rule runOfEight_step_eq)
  have 1: "mask_bits h data avg (Suc k) (fst (runOfEight_loop h data avg (Suc k)))"
    unfolding eq fst_conv using m by (rule mask_bits_step)
  have 2: "same_data h (snd (runOfEight_loop h data avg (Suc k)))"
    unfolding eq snd_conv using sd same_data_trans [OF sd same_data_set_all] by simp
  have 3: "status (snd (runOfEight_loop h data avg (Suc k)) ! r) =
                (if r < length h \<and> run_marked h data avg (Suc k) r
                 then RUN_OF_EIGHT_EXCEPTION else status (h ! r))" for r
    unfolding eq snd_conv run_marked_Suc [OF step.hyps(1)]
    by (simp only: status_set_window st len if_distrib [of "\<lambda>h. status (h ! r)"] split: if_splits) blast
  from 1 2 3 show ?case by blast
qed

section \<open>The counters and the loop of \<^verbatim>\<open>checkFourNearLimit\<close>\<close>

lemma count_in_Nil [simp]: "count_in P [] = 0"
  by (simp add: count_in_def)

lemma count_in_Cons: "count_in P (j # js) = (if P j then 1 else 0) + count_in P js"
  by (simp add: count_in_def)

lemma count_in_snoc: "count_in P (js @ [j]) = count_in P js + (if P j then 1 else 0)"
  by (simp add: count_in_def)

lemma fourNearLimit_count_eq:
  assumes "same_data h hk"
  shows "fourNearLimit_count hk data lowerQ upperQ d (b, a) i =
           (b + (if below h data lowerQ i then d else 0),
            a + (if above_only h data lowerQ upperQ i then d else 0))"
  using same_data_num_value [OF assms]
  by (simp add: fourNearLimit_count_def below_def above_only_def)

lemma fourNearLimit_prime:
  "foldl (fourNearLimit_count h data lowerQ upperQ 1) (b, a) js =
     (b + count_in (below h data lowerQ) js, a + count_in (above_only h data lowerQ upperQ) js)"
proof (induction js arbitrary: b a)
  case Nil
  show ?case by simp
next
  case (Cons j js)
  show ?case
    by (simp add: fourNearLimit_count_eq [OF same_data_refl] Cons.IH count_in_Cons)
qed

lemma fourNearLimit_loop_3:
  "fourNearLimit_loop h data lowerQ upperQ 3 =
     ((count_in (below h data lowerQ) [0..<3], count_in (above_only h data lowerQ upperQ) [0..<3]), h)"
  unfolding fourNearLimit_loop_def fourNearLimit_prime by simp

lemma fourNearLimit_loop_Suc:
  "3 \<le> k \<Longrightarrow> fourNearLimit_loop h data lowerQ upperQ (Suc k) =
     fourNearLimit_step data lowerQ upperQ (fourNearLimit_loop h data lowerQ upperQ k) k"
  by (simp add: fourNearLimit_loop_def)

lemma window4_add: "count_in P [k - 3..<k] + (if P k then 1 else 0) = count_in P [k - 3..<Suc k]"
  by (simp add: count_in_snoc)

lemma window4_sub:
  assumes "3 \<le> k"
  shows "count_in P [k - 3..<Suc k] + (if P (k - 3) then - 1 else 0) = count_in P [Suc k - 3..<Suc k]"
proof -
  have "[k - 3..<Suc k] = (k - 3) # [Suc k - 3..<Suc k]"
    using assms by (simp add: upt_conv_Cons Suc_diff_le del: upt_Suc)
  then show ?thesis by (simp add: count_in_Cons del: upt_Suc)
qed

lemma fourNearLimit_step_eq:
  assumes "same_data h hk" and "3 \<le> k"
  shows "fourNearLimit_step data lowerQ upperQ
           ((count_in (below h data lowerQ) [k - 3..<k],
             count_in (above_only h data lowerQ upperQ) [k - 3..<k]), hk) k =
           ((count_in (below h data lowerQ) [Suc k - 3..<Suc k],
             count_in (above_only h data lowerQ upperQ) [Suc k - 3..<Suc k]),
            if near_window h data lowerQ upperQ k
            then set_all hk (map ((!) data) [k - 3..<Suc k]) FOUR_NEAR_LIMIT_EXCEPTION else hk)"
proof -
  let ?h' = "if near_window h data lowerQ upperQ k
            then set_all hk (map ((!) data) [k - 3..<Suc k]) FOUR_NEAR_LIMIT_EXCEPTION else hk"
  have sd: "same_data h ?h'"
    using assms(1) same_data_trans [OF assms(1) same_data_set_all] by simp
  show ?thesis
    unfolding fourNearLimit_step_def Let_def prod.case
      fourNearLimit_count_eq [OF assms(1)] window4_add fst_conv snd_conv
      foldl_set_status_index near_window_def [symmetric] Suc_eq_plus1 [symmetric]
      fourNearLimit_count_eq [OF sd] window4_sub [OF assms(2)]
    by (rule refl)
qed

lemma four_marked_3 [simp]: "\<not> four_marked h data lowerQ upperQ 3 r"
  by (simp add: four_marked_def)

lemma four_marked_Suc:
  assumes "3 \<le> k"
  shows "four_marked h data lowerQ upperQ (Suc k) r \<longleftrightarrow>
     four_marked h data lowerQ upperQ k r \<or>
     (near_window h data lowerQ upperQ k \<and> r \<in> (!) data ` {k - 3..k})"
proof -
  have *: "{3..<Suc k} = insert k {3..<k}"
    using assms by (simp add: atLeastLessThanSuc)
  show ?thesis
    unfolding four_marked_def * bex_simps by blast
qed

lemma status_set_window4:
  "status (set_all hk (map ((!) data) [k - 3..<Suc k]) s ! r) =
     (if r \<in> (!) data ` {k - 3..k} \<and> r < length hk then s else status (hk ! r))"
proof -
  have "set (map ((!) data) [k - 3..<Suc k]) = (!) data ` {k - 3..k}"
    by (simp only: set_map set_upt atLeastLessThanSuc_atLeastAtMost)
  then show ?thesis
    unfolding status_set_all by simp
qed

lemma fourNearLimit_loop_inv:
  assumes "3 \<le> k"
  shows "fst (fourNearLimit_loop h data lowerQ upperQ k) =
           (count_in (below h data lowerQ) [k - 3..<k],
            count_in (above_only h data lowerQ upperQ) [k - 3..<k]) \<and>
         same_data h (snd (fourNearLimit_loop h data lowerQ upperQ k)) \<and>
         (\<forall>r. status (snd (fourNearLimit_loop h data lowerQ upperQ k) ! r) =
                (if r < length h \<and> four_marked h data lowerQ upperQ k r
                 then FOUR_NEAR_LIMIT_EXCEPTION else status (h ! r)))"
  using assms
proof (induction k rule: dec_induct)
  case base
  show ?case by (simp add: fourNearLimit_loop_3)
next
  case (step k)
  obtain c hk where s: "fourNearLimit_loop h data lowerQ upperQ k = (c, hk)"
    by (cases "fourNearLimit_loop h data lowerQ upperQ k")
  with step.IH have c: "c = (count_in (below h data lowerQ) [k - 3..<k],
            count_in (above_only h data lowerQ upperQ) [k - 3..<k])" and sd: "same_data h hk"
    and st: "\<And>r. status (hk ! r) =
                (if r < length h \<and> four_marked h data lowerQ upperQ k r
                 then FOUR_NEAR_LIMIT_EXCEPTION else status (h ! r))"
    by simp_all
  have len: "length hk = length h" using sd by (rule same_data_length)
  have eq: "fourNearLimit_loop h data lowerQ upperQ (Suc k) =
           ((count_in (below h data lowerQ) [Suc k - 3..<Suc k],
             count_in (above_only h data lowerQ upperQ) [Suc k - 3..<Suc k]),
            if near_window h data lowerQ upperQ k
            then set_all hk (map ((!) data) [k - 3..<Suc k]) FOUR_NEAR_LIMIT_EXCEPTION else hk)"
    unfolding fourNearLimit_loop_Suc [OF step.hyps(1)] s c
    using sd step.hyps(1) by (rule fourNearLimit_step_eq)
  have 1: "fst (fourNearLimit_loop h data lowerQ upperQ (Suc k)) =
           (count_in (below h data lowerQ) [Suc k - 3..<Suc k],
            count_in (above_only h data lowerQ upperQ) [Suc k - 3..<Suc k])"
    unfolding eq fst_conv by (rule refl)
  have 2: "same_data h (snd (fourNearLimit_loop h data lowerQ upperQ (Suc k)))"
    unfolding eq snd_conv using sd same_data_trans [OF sd same_data_set_all] by simp
  have 3: "status (snd (fourNearLimit_loop h data lowerQ upperQ (Suc k)) ! r) =
                (if r < length h \<and> four_marked h data lowerQ upperQ (Suc k) r
                 then FOUR_NEAR_LIMIT_EXCEPTION else status (h ! r))" for r
    unfolding eq snd_conv four_marked_Suc [OF step.hyps(1)]
    by (simp only: status_set_window4 st len if_distrib [of "\<lambda>h. status (h ! r)"] split: if_splits) blast
  from 1 2 3 show ?case by blast
qed

section \<open>Statuses after the checks\<close>

lemma status_checkRunOfEight:
  "status (checkRunOfEight h data avg ! r) =
     (if 8 \<le> length data \<and> r < length h \<and> run_marked h data avg (length data) r
      then RUN_OF_EIGHT_EXCEPTION else status (h ! r))"
proof (cases "length data < 8")
  case True
  then show ?thesis by (simp add: checkRunOfEight_def)
next
  case False
  then have "7 \<le> length data" by simp
  from runOfEight_loop_inv [OF this, of h data avg] False show ?thesis
    by (simp add: checkRunOfEight_def)
qed

lemma same_data_checkRunOfEight: "same_data h (checkRunOfEight h data avg)"
proof (cases "length data < 8")
  case True
  then show ?thesis by (simp add: checkRunOfEight_def)
next
  case False
  then have "7 \<le> length data" by simp
  from runOfEight_loop_inv [OF this, of h data avg] False show ?thesis
    by (simp add: checkRunOfEight_def)
qed

lemma status_checkFourNearLimit:
  "status (checkFourNearLimit h data lowerQ upperQ ! r) =
     (if 4 \<le> length data \<and> r < length h \<and> four_marked h data lowerQ upperQ (length data) r
      then FOUR_NEAR_LIMIT_EXCEPTION else status (h ! r))"
proof (cases "length data < 4")
  case True
  then show ?thesis by (simp add: checkFourNearLimit_def)
next
  case False
  then have "3 \<le> length data" by simp
  from fourNearLimit_loop_inv [OF this, of h data lowerQ upperQ] False show ?thesis
    by (simp add: checkFourNearLimit_def)
qed

lemma same_data_checkFourNearLimit: "same_data h (checkFourNearLimit h data lowerQ upperQ)"
proof (cases "length data < 4")
  case True
  then show ?thesis by (simp add: checkFourNearLimit_def)
next
  case False
  then have "3 \<le> length data" by simp
  from fourNearLimit_loop_inv [OF this, of h data lowerQ upperQ] False show ?thesis
    by (simp add: checkFourNearLimit_def)
qed

lemma checkOutsideLimit_inv:
  "same_data h (checkOutsideLimit h data lo hi) \<and>
   (\<forall>r. status (checkOutsideLimit h data lo hi ! r) =
      (if r \<in> set data \<and> r < length h \<and>
          (js_lt (num_value (h ! r)) lo \<or> js_gt (num_value (h ! r)) hi)
       then NPL_EXCEPTION else status (h ! r)))"
proof (induction data arbitrary: h)
  case Nil
  show ?case by (simp add: checkOutsideLimit_def)
next
  case (Cons d data)
  let ?h1 = "if js_lt (num_value (h ! d)) lo then set_status h d NPL_EXCEPTION
             else if js_gt (num_value (h ! d)) hi then set_status h d NPL_EXCEPTION else h"
  have unf: "checkOutsideLimit h (d # data) lo hi = checkOutsideLimit ?h1 data lo hi"
    by (simp add: checkOutsideLimit_def)
  have sd1: "same_data h ?h1" by simp
  have nv: "num_value (?h1 ! r) = num_value (h ! r)" for r by simp
  have len: "length ?h1 = length h" by simp
  have st1: "status (?h1 ! r) =
      (if r = d \<and> r < length h \<and> (js_lt (num_value (h ! r)) lo \<or> js_gt (num_value (h ! r)) hi)
       then NPL_EXCEPTION else status (h ! r))" for r
    by (auto simp: status_set_status)
  from Cons.IH [of ?h1] have sd2: "same_data ?h1 (checkOutsideLimit ?h1 data lo hi)"
    and st2: "\<And>r. status (checkOutsideLimit ?h1 data lo hi ! r) =
      (if r \<in> set data \<and> r < length ?h1 \<and>
          (js_lt (num_value (?h1 ! r)) lo \<or> js_gt (num_value (?h1 ! r)) hi)
       then NPL_EXCEPTION else status (?h1 ! r))"
    by blast+
  have 1: "same_data h (checkOutsideLimit h (d # data) lo hi)"
    unfolding unf using sd1 sd2 by (rule same_data_trans)
  have 2: "status (checkOutsideLimit h (d # data) lo hi ! r) =
      (if r \<in> set (d # data) \<and> r < length h \<and>
          (js_lt (num_value (h ! r)) lo \<or> js_gt (num_value (h ! r)) hi)
       then NPL_EXCEPTION else status (h ! r))" for r
    unfolding unf st2 nv len st1 by auto
  from 1 2 show ?case by blast
qed

section \<open>Rounding\<close>

text \<open>
  The rule of claim C7 as it is stated, ties away from zero for negative inputs too,
  fails at \<open>-0.125\<close>: \<^verbatim>\<open>round\<close> gives \<open>-0.12\<close>, the rule \<open>-0.13\<close>. And rounding
  a rounded value again is not always a no-op: \<^verbatim>\<open>round(43900490224276.625)\<close> is
  \<open>43900490224276.63\<close>, which \<^verbatim>\<open>round\<close> takes to \<open>43900490224276.64\<close>. (A decimal
  stands for the binary64 value nearest to it; \<open>-0.125\<close> and \<open>43900490224276.625\<close> are
  binary64 values as they are.)
\<close>

theorem round_js_ties_away_counterexample:
  "binary64 (- 0.125) = Num (- 0.125) \<and>
   round_js (Num (- 0.125)) DECIMAL_POINT = binary64 (- 0.12) \<and>
   round_half_away_from_zero (- 0.125) = - 0.13 \<and>
   round_js (Num (- 0.125)) DECIMAL_POINT \<noteq> binary64 (round_half_away_from_zero (- 0.125)) \<and>
   binary64 43900490224276.625 = Num 43900490224276.625 \<and>
   round_js (Num 43900490224276.625) DECIMAL_POINT = binary64 43900490224276.63 \<and>
   round_js (round_js (Num 43900490224276.625) DECIMAL_POINT) DECIMAL_POINT =
     binary64 43900490224276.64 \<and>
   round_js (round_js (Num 43900490224276.625) DECIMAL_POINT) DECIMAL_POINT \<noteq>
     round_js (Num 43900490224276.625) DECIMAL_POINT"
proof -
  have 1: "binary64 (- 0.125) = Num (- 0.125)"
    by (simp add: binary64_eval cong: let_weak_cong)
  have 2: "round_js (Num (- 0.125)) DECIMAL_POINT = binary64 (- 0.12)"
    by (simp add: round_js_Num binary64_eval cong: let_weak_cong)
  have 3: "round_half_away_from_zero (- 0.125) = - 0.13"
    by (simp add: round_half_away_from_zero_def)
  have 4: "binary64 (- 0.12) \<noteq> binary64 (- 0.13)"
    by (simp add: binary64_eval cong: let_weak_cong)
  have 5: "binary64 43900490224276.625 = Num 43900490224276.625"
    by (simp add: binary64_eval cong: let_weak_cong)
  have 6: "round_js (Num 43900490224276.625) DECIMAL_POINT = binary64 43900490224276.63"
    by (simp add: round_js_Num binary64_eval cong: let_weak_cong)
  have 7: "round_js (binary64 43900490224276.63) DECIMAL_POINT = binary64 43900490224276.64"
    by (simp add: round_js_def DECIMAL_POINT_def binary64_eval cong: let_weak_cong)
  have 8: "binary64 43900490224276.64 \<noteq> binary64 43900490224276.63"
    by (simp add: binary64_eval cong: let_weak_cong)
  from 1 2 3 4 5 6 7 8 show ?thesis by simp
qed

text \<open>
  C7, amended: for every real \<open>n\<close>, \<^verbatim>\<open>round(n)\<close> is
  \<^verbatim>\<open>Math.round(n * 100) / 100\<close> in the arithmetic of binary64. When the product is
  finite, the binary64 value \<open>p\<close> nearest to \<open>n \<times> 100\<close> (within \<open>2^(-53)\<close> of it in
  relative terms, in the range of the normal values), the result is the binary64 value
  nearest to \<open>k / 100\<close> for the integer \<open>k\<close> nearest to \<open>p\<close>, and when \<open>p\<close> is
  exactly halfway between two integers \<open>k\<close> is the upper one (towards plus infinity):
  away from zero for positive \<open>p\<close>, towards zero for negative \<open>p\<close>. When the
  product overflows, the result is the infinity of its sign; \<^verbatim>\<open>NaN\<close> and the
  infinities are returned as they are. Rounding a rounded number \<open>k / 100\<close> again
  changes nothing when \<open>|k| \<le> 2^50\<close>. Every numeric field of the limits that
  \<^verbatim>\<open>calculateLimits\<close> returns is the unrounded constant that the function computed
  for it, rounded by \<^verbatim>\<open>round\<close>.
\<close>

theorem round_js_rounds_half_up:
  "round_js (Num n) DECIMAL_POINT = js_div (Math_round (js_mul (Num n) (Num 100))) (Num 100) \<and>
   (binary64 (n * 100) = Num p \<longrightarrow>
      round_js (Num n) DECIMAL_POINT = binary64 (of_int \<lfloor>p + 1 / 2\<rfloor> / 100) \<and>
      \<bar>of_int \<lfloor>p + 1 / 2\<rfloor> - p\<bar> \<le> 1 / 2 \<and>
      (p - of_int \<lfloor>p\<rfloor> = 1 / 2 \<longrightarrow> \<lfloor>p + 1 / 2\<rfloor> = \<lfloor>p\<rfloor> + 1)) \<and>
   (pow2 (- 1022) \<le> \<bar>n * 100\<bar> \<and> \<bar>n * 100\<bar> < pow2 1023 \<longrightarrow>
      (\<exists>q. binary64 (n * 100) = Num q \<and> \<bar>q - n * 100\<bar> \<le> \<bar>n * 100\<bar> / 2 ^ 53)) \<and>
   (binary64 (n * 100) = Infinity \<longrightarrow> round_js (Num n) DECIMAL_POINT = Infinity) \<and>
   (binary64 (n * 100) = NegInfinity \<longrightarrow> round_js (Num n) DECIMAL_POINT = NegInfinity) \<and>
   round_js NaN DECIMAL_POINT = NaN \<and>
   round_js Infinity DECIMAL_POINT = Infinity \<and>
   round_js NegInfinity DECIMAL_POINT = NegInfinity \<and>
   (\<bar>k\<bar> \<le> 2 ^ 50 \<longrightarrow>
      round_js (binary64 (of_int k / 100)) DECIMAL_POINT = binary64 (of_int k / 100)) \<and>
   (let l = calculateLimits h xdata; c = calculateLimits_unrounded h xdata in
      avgX l = round_js (avgX c) DECIMAL_POINT \<and>
      avgMovement l = round_js (avgMovement c) DECIMAL_POINT \<and>
      UNPL l = round_js (UNPL c) DECIMAL_POINT \<and>
      LNPL l = round_js (LNPL c) DECIMAL_POINT \<and>
      URL l = round_js (URL c) DECIMAL_POINT \<and>
      lowerQuartile l = round_js (lowerQuartile c) DECIMAL_POINT \<and>
      upperQuartile l = round_js (upperQuartile c) DECIMAL_POINT)"
proof -
  have 1: "round_js (Num n) DECIMAL_POINT = js_div (Math_round (js_mul (Num n) (Num 100))) (Num 100)"
    by (simp add: round_js_Num)
  have 2: "binary64 (n * 100) = Num p \<longrightarrow>
      round_js (Num n) DECIMAL_POINT = binary64 (of_int \<lfloor>p + 1 / 2\<rfloor> / 100) \<and>
      \<bar>of_int \<lfloor>p + 1 / 2\<rfloor> - p\<bar> \<le> 1 / 2 \<and>
      (p - of_int \<lfloor>p\<rfloor> = 1 / 2 \<longrightarrow> \<lfloor>p + 1 / 2\<rfloor> = \<lfloor>p\<rfloor> + 1)"
  proof (intro impI conjI)
    assume "binary64 (n * 100) = Num p"
    then show "round_js (Num n) DECIMAL_POINT = binary64 (of_int \<lfloor>p + 1 / 2\<rfloor> / 100)"
      by (rule round_js_finite)
  next
    show "\<bar>of_int \<lfloor>p + 1 / 2\<rfloor> - p\<bar> \<le> 1 / 2" by linarith
  next
    assume "p - of_int \<lfloor>p\<rfloor> = 1 / 2"
    then have "p + 1 / 2 = of_int (\<lfloor>p\<rfloor> + 1)" by simp
    then show "\<lfloor>p + 1 / 2\<rfloor> = \<lfloor>p\<rfloor> + 1" by (metis floor_of_int)
  qed
  have 3: "pow2 (- 1022) \<le> \<bar>n * 100\<bar> \<and> \<bar>n * 100\<bar> < pow2 1023 \<longrightarrow>
      (\<exists>q. binary64 (n * 100) = Num q \<and> \<bar>q - n * 100\<bar> \<le> \<bar>n * 100\<bar> / 2 ^ 53)"
    using binary64_error [of "n * 100"] by blast
  have 4: "binary64 (n * 100) = Infinity \<longrightarrow> round_js (Num n) DECIMAL_POINT = Infinity"
    "binary64 (n * 100) = NegInfinity \<longrightarrow> round_js (Num n) DECIMAL_POINT = NegInfinity"
    by (simp_all add: round_js_Num)
  have 5: "round_js NaN DECIMAL_POINT = NaN" "round_js Infinity DECIMAL_POINT = Infinity"
    "round_js NegInfinity DECIMAL_POINT = NegInfinity"
    by (simp_all add: round_js_def DECIMAL_POINT_def)
  have 6: "\<bar>k\<bar> \<le> 2 ^ 50 \<longrightarrow>
      round_js (binary64 (of_int k / 100)) DECIMAL_POINT = binary64 (of_int k / 100)"
    using round_js_idem_range [of k] by blast
  have 7: "let l = calculateLimits h xdata; c = calculateLimits_unrounded h xdata in
      avgX l = round_js (avgX c) DECIMAL_POINT \<and>
      avgMovement l = round_js (avgMovement c) DECIMAL_POINT \<and>
      UNPL l = round_js (UNPL c) DECIMAL_POINT \<and>
      LNPL l = round_js (LNPL c) DECIMAL_POINT \<and>
      URL l = round_js (URL c) DECIMAL_POINT \<and>
      lowerQuartile l = round_js (lowerQuartile c) DECIMAL_POINT \<and>
      upperQuartile l = round_js (upperQuartile c) DECIMAL_POINT"
    by (simp add: calculateLimits_def Let_def)
  from 1 2 3 4 5 6 7 show ?thesis by blast
qed

theorem round_js_rounds_half_up_witness:
  "binary64 (0.125 * 100) = Num 12.5 \<and>
   (12.5 :: real) - of_int \<lfloor>12.5 :: real\<rfloor> = 1 / 2 \<and>
   \<lfloor>(12.5 :: real) + 1 / 2\<rfloor> = \<lfloor>12.5 :: real\<rfloor> + 1 \<and>
   round_js (Num 0.125) DECIMAL_POINT = binary64 0.13 \<and>
   pow2 (- 1022) \<le> \<bar>(0.125 :: real) * 100\<bar> \<and> \<bar>(0.125 :: real) * 100\<bar> < pow2 1023 \<and>
   \<bar>(13 :: int)\<bar> \<le> 2 ^ 50 \<and>
   round_js (binary64 (of_int 13 / 100)) DECIMAL_POINT = binary64 (of_int 13 / 100) \<and>
   round_js (binary64 0.015) DECIMAL_POINT = binary64 0.02 \<and>
   binary64 (2 ^ 1020 * 100) = Infinity \<and>
   round_js (Num (2 ^ 1020)) DECIMAL_POINT = Infinity \<and>
   binary64 (- (2 ^ 1020) * 100) = NegInfinity \<and>
   round_js (Num (- (2 ^ 1020))) DECIMAL_POINT = NegInfinity"
proof -
  have p: "binary64 (0.125 * 100) = Num 12.5"
    by (simp add: binary64_eval cong: let_weak_cong)
  have t: "(12.5 :: real) - of_int \<lfloor>12.5 :: real\<rfloor> = 1 / 2" by simp
  have r: "pow2 (- 1022) \<le> \<bar>(0.125 :: real) * 100\<bar> \<and> \<bar>(0.125 :: real) * 100\<bar> < pow2 1023"
    by (simp add: pow2_def)
  have k: "\<bar>(13 :: int)\<bar> \<le> 2 ^ 50" by simp
  have o: "binary64 (2 ^ 1020 * 100) = Infinity"
    by (simp add: binary64_eval cong: let_weak_cong)
  have o': "binary64 (- (2 ^ 1020) * 100) = NegInfinity"
    by (simp add: binary64_eval cong: let_weak_cong)
  note a = round_js_rounds_half_up [of "0.125" "12.5" 13 "[]" "[]"]
  from a p t have 1: "\<lfloor>(12.5 :: real) + 1 / 2\<rfloor> = \<lfloor>12.5 :: real\<rfloor> + 1"
    and "round_js (Num 0.125) DECIMAL_POINT = binary64 (of_int \<lfloor>(12.5 :: real) + 1 / 2\<rfloor> / 100)"
    by blast+
  then have 2: "round_js (Num 0.125) DECIMAL_POINT = binary64 0.13" by simp
  from a k have 3: "round_js (binary64 (of_int 13 / 100)) DECIMAL_POINT = binary64 (of_int 13 / 100)"
    by blast
  have 4: "round_js (binary64 0.015) DECIMAL_POINT = binary64 0.02"
    by (simp add: round_js_def DECIMAL_POINT_def binary64_eval cong: let_weak_cong)
  from round_js_rounds_half_up [of "2 ^ 1020" 0 0 "[]" "[]"] o
  have 5: "round_js (Num (2 ^ 1020)) DECIMAL_POINT = Infinity" by blast
  from round_js_rounds_half_up [of "- (2 ^ 1020)" 0 0 "[]" "[]"] o'
  have 6: "round_js (Num (- (2 ^ 1020))) DECIMAL_POINT = NegInfinity" by blast
  from p t 1 2 r k 3 4 o 5 o' 6 show ?thesis by blast
qed

section \<open>The empty series\<close>

text \<open>
  C8: when no row of the input survives the cleaning, \<^verbatim>\<open>computeXmrStats\<close> returns
  (it is a total function) the statistics with empty \<open>lineValues\<close>,
  \<open>xdataPerRange\<close> and \<open>movementsPerRange\<close>, the chart bounds at
  \<open>xchartMin = Infinity\<close>, \<open>xchartMax = -Infinity\<close>, \<open>mrchartMax = -Infinity\<close>, and
  the store as it was.
\<close>

theorem computeXmrStats_empty:
  assumes "removeAllNulls h data = []"
  shows "computeXmrStats dayjs engine h data =
           (h, \<lparr>xchartMin = Infinity, xchartMax = NegInfinity, mrchartMax = NegInfinity,
                lineValues = [], xdataPerRange = [], movementsPerRange = []\<rparr>)"
  using assms by (simp add: computeXmrStats_def sortDataValues_def findExtremesX_def)

theorem computeXmrStats_empty_witness:
  "removeAllNulls [\<lparr>order = 0, x = None, value = Some (Num 5), status = NORMAL\<rparr>] [0] = [] \<and>
   computeXmrStats (\<lambda>s. None) as_it_is [\<lparr>order = 0, x = None, value = Some (Num 5), status = NORMAL\<rparr>] [0] =
     ([\<lparr>order = 0, x = None, value = Some (Num 5), status = NORMAL\<rparr>],
      \<lparr>xchartMin = Infinity, xchartMax = NegInfinity, mrchartMax = NegInfinity,
       lineValues = [], xdataPerRange = [], movementsPerRange = []\<rparr>)"
proof -
  have e: "removeAllNulls [\<lparr>order = 0, x = None, value = Some (Num 5), status = NORMAL\<rparr>] [0] = []"
    by (simp add: removeAllNulls_def truthy_string_def)
  from e computeXmrStats_empty [OF e] show ?thesis by simp
qed

section \<open>Run of eight\<close>

lemma uniform_window_start:
  "7 \<le> i \<Longrightarrow> uniform_window h data avg i \<longleftrightarrow>
     ((\<forall>k\<in>{i - 7..<i - 7 + 8}. js_gt (num_value (h ! (data ! k))) avg) \<or>
      (\<forall>k\<in>{i - 7..<i - 7 + 8}. \<not> js_gt (num_value (h ! (data ! k))) avg))"
proof -
  assume "7 \<le> i"
  then have "{i - 7..<i - 7 + 8} = {i - 7..i}" by auto
  then show ?thesis by (simp add: uniform_window_def above_def)
qed

lemma run_marked_iff:
  "run_marked h data avg (length data) r \<longleftrightarrow>
     (\<exists>j<length data. data ! j = r \<and> in_run_of_eight h data avg j)"
proof
  assume "run_marked h data avg (length data) r"
  then obtain i j where i: "7 \<le> i" "i < length data" "uniform_window h data avg i"
    and j: "i - 7 \<le> j" "j \<le> i" "r = data ! j"
    unfolding run_marked_def by auto
  have "i - 7 \<in> {0..<length data - 7}" using i by auto
  moreover have "i - 7 \<le> j \<and> j < i - 7 + 8" using i j by auto
  ultimately have "in_run_of_eight h data avg j"
    unfolding in_run_of_eight_def using i(3) uniform_window_start [OF i(1), of h data avg] by blast
  moreover have "j < length data" using i j by simp
  ultimately show "\<exists>j<length data. data ! j = r \<and> in_run_of_eight h data avg j"
    using j by blast
next
  assume "\<exists>j<length data. data ! j = r \<and> in_run_of_eight h data avg j"
  then obtain j s where j: "j < length data" "data ! j = r"
    and s: "s < length data - 7" "s \<le> j" "j < s + 8"
    and u: "(\<forall>k\<in>{s..<s + 8}. js_gt (num_value (h ! (data ! k))) avg) \<or>
         (\<forall>k\<in>{s..<s + 8}. \<not> js_gt (num_value (h ! (data ! k))) avg)"
    unfolding in_run_of_eight_def by auto
  let ?i = "s + 7"
  have i: "7 \<le> ?i" "?i \<in> {7..<length data}" using s by auto
  have "uniform_window h data avg ?i"
    using u uniform_window_start [OF i(1), of h data avg] by simp
  moreover have "r \<in> (!) data ` {?i - 7..?i}" using j s by auto
  ultimately show "run_marked h data avg (length data) r"
    unfolding run_marked_def using i(2) by blast
qed

lemma in_run_of_eight_long_run:
  assumes "a + 8 \<le> b" and "b \<le> length data" and "j \<in> {a..<b}"
    and "(\<forall>k\<in>{a..<b}. js_gt (num_value (h ! (data ! k))) avg) \<or>
         (\<forall>k\<in>{a..<b}. \<not> js_gt (num_value (h ! (data ! k))) avg)"
  shows "in_run_of_eight h data avg j"
proof -
  let ?s = "if j < a + 8 then a else j - 7"
  have s: "a \<le> ?s" "?s + 8 \<le> b" "?s \<le> j" "j < ?s + 8" using assms(1,3) by auto
  then have sub: "{?s..<?s + 8} \<subseteq> {a..<b}" by auto
  have "?s \<in> {0..<length data - 7}" using s assms(2) by auto
  moreover have "(\<forall>k\<in>{?s..<?s + 8}. js_gt (num_value (h ! (data ! k))) avg) \<or>
         (\<forall>k\<in>{?s..<?s + 8}. \<not> js_gt (num_value (h ! (data ! k))) avg)"
    using assms(4) sub by blast
  ultimately show ?thesis
    unfolding in_run_of_eight_def using s(3,4) by blast
qed

text \<open>
  C10: for a series of at least 8 points (whose references are objects of the store) and
  a comparison mean \<open>avg\<close>, the bit mask of \<^verbatim>\<open>checkRunOfEight\<close> computes the
  declarative rule: an object has status \<^verbatim>\<open>RUN_OF_EIGHT_EXCEPTION\<close> afterwards if
  and only if it is the point of a position that belongs to a window of 8 consecutive
  positions whose values are all strictly greater than \<open>avg\<close> or all not strictly
  greater than \<open>avg\<close>; every other object keeps its status. In particular every point
  of a uniform run of 8 or more positions is marked, the 9th of 9 equal values too.
\<close>

theorem checkRunOfEight_declarative:
  assumes "\<forall>r\<in>set data. r < length h" and "8 \<le> length data"
  shows "(\<forall>r. status (checkRunOfEight h data avg ! r) =
            (if \<exists>j<length data. data ! j = r \<and> in_run_of_eight h data avg j
             then RUN_OF_EIGHT_EXCEPTION else status (h ! r))) \<and>
         (\<forall>a b. a + 8 \<le> b \<and> b \<le> length data \<and>
            ((\<forall>k\<in>{a..<b}. js_gt (num_value (h ! (data ! k))) avg) \<or>
             (\<forall>k\<in>{a..<b}. \<not> js_gt (num_value (h ! (data ! k))) avg)) \<longrightarrow>
            (\<forall>j\<in>{a..<b}. status (checkRunOfEight h data avg ! (data ! j)) = RUN_OF_EIGHT_EXCEPTION))"
proof -
  have v: "(\<exists>j<length data. data ! j = r \<and> in_run_of_eight h data avg j) \<Longrightarrow> r < length h" for r
    using assms(1) by auto
  have 1: "status (checkRunOfEight h data avg ! r) =
            (if \<exists>j<length data. data ! j = r \<and> in_run_of_eight h data avg j
             then RUN_OF_EIGHT_EXCEPTION else status (h ! r))" for r
    unfolding status_checkRunOfEight run_marked_iff using assms(2) v [of r] by auto
  have 2: "status (checkRunOfEight h data avg ! (data ! j)) = RUN_OF_EIGHT_EXCEPTION"
    if "a + 8 \<le> b" "b \<le> length data" "j \<in> {a..<b}"
      "(\<forall>k\<in>{a..<b}. js_gt (num_value (h ! (data ! k))) avg) \<or>
       (\<forall>k\<in>{a..<b}. \<not> js_gt (num_value (h ! (data ! k))) avg)" for a b j
  proof -
    have "in_run_of_eight h data avg j" using that by (rule in_run_of_eight_long_run)
    moreover have "j < length data" using that by simp
    ultimately show ?thesis unfolding 1 by auto
  qed
  from 1 2 show ?thesis by blast
qed

theorem checkRunOfEight_declarative_witness:
  "length nine_tens = 9 \<and> 8 \<le> length [0..<9 :: nat] \<and>
   status (checkRunOfEight nine_tens [0..<9] (Num 10) ! 0) = RUN_OF_EIGHT_EXCEPTION \<and>
   status (checkRunOfEight nine_tens [0..<9] (Num 10) ! 8) = RUN_OF_EIGHT_EXCEPTION"
proof -
  have n: "length nine_tens = 9" by (simp add: nine_tens_def)
  have v: "\<forall>r\<in>set [0..<9]. r < length nine_tens" by (simp add: nine_tens_def)
  have l: "8 \<le> length [0..<9 :: nat]" by simp
  have u: "\<forall>k\<in>{0..<9}. \<not> js_gt (num_value (nine_tens ! ([0..<9] ! k))) (Num 10)"
    by (simp add: nine_tens_def num_value_def js_gt_def del: upt_Suc)
  have b: "0 + 8 \<le> (9 :: nat) \<and> 9 \<le> length [0..<9 :: nat]" by simp
  from checkRunOfEight_declarative [OF v l, of "Num 10"] b u
  have a: "\<forall>j\<in>{0..<9}. status (checkRunOfEight nine_tens [0..<9] (Num 10) ! ([0..<9] ! j)) =
      RUN_OF_EIGHT_EXCEPTION" by blast
  from a have a0: "status (checkRunOfEight nine_tens [0..<9] (Num 10) ! ([0..<9] ! 0)) =
      RUN_OF_EIGHT_EXCEPTION" by simp
  from a have a8: "status (checkRunOfEight nine_tens [0..<9] (Num 10) ! ([0..<9] ! 8)) =
      RUN_OF_EIGHT_EXCEPTION" by simp
  have "[0..<9] ! 0 = (0 :: nat)" "[0..<9] ! 8 = (8 :: nat)" by (simp_all del: upt_Suc)
  with a0 a8 n l show ?thesis by simp
qed

text \<open>
  C1: \<^verbatim>\<open>checkRunOfEight\<close> leaves a series of fewer than 8 points as it is. On a longer
  one, the mask after the first loop has bit \<open>b\<close> set exactly for the positions
  \<open>b < 7\<close> whose value is strictly greater than the mean (bits are only set there).
  After the iteration for a position \<open>i \<ge> 7\<close> the mask \<open>m\<close> is an 8-bit value whose bit
  \<open>j mod 8\<close> tells, for each of the positions \<open>j\<close> from \<open>i - 7\<close> to \<open>i\<close>, whether the
  value of \<open>j\<close> is strictly greater than the mean (the bit of \<open>i\<close> was set or cleared);
  \<open>m = 255\<close> says that all 8 are, \<open>m = 0\<close> that none is, and in these two cases that
  iteration gives the points \<open>i - 7\<close> to \<open>i\<close> the status
  \<^verbatim>\<open>RUN_OF_EIGHT_EXCEPTION\<close>, which they still have when the check returns; in the
  other cases the iteration writes nothing.
\<close>

theorem checkRunOfEight_rolling_mask:
  assumes "\<forall>r\<in>set data. r < length h"
  shows "(length data < 8 \<longrightarrow> checkRunOfEight h data avg = h) \<and>
         (8 \<le> length data \<longrightarrow>
            (\<forall>b. bit (fst (runOfEight_loop h data avg 7)) b \<longleftrightarrow>
                   b < 7 \<and> js_gt (num_value (h ! (data ! b))) avg) \<and>
            checkRunOfEight h data avg = snd (runOfEight_loop h data avg (length data)) \<and>
            (\<forall>i. 7 \<le> i \<and> i < length data \<longrightarrow>
               (let m = fst (runOfEight_loop h data avg (Suc i));
                    h0 = snd (runOfEight_loop h data avg i);
                    h1 = snd (runOfEight_loop h data avg (Suc i))
                in 0 \<le> m \<and> m < 256 \<and>
                   (\<forall>j\<in>{i - 7..i}. bit m (j mod 8) \<longleftrightarrow> js_gt (num_value (h ! (data ! j))) avg) \<and>
                   (m = 255 \<longleftrightarrow> (\<forall>j\<in>{i - 7..i}. js_gt (num_value (h ! (data ! j))) avg)) \<and>
                   (m = 0 \<longleftrightarrow> (\<forall>j\<in>{i - 7..i}. \<not> js_gt (num_value (h ! (data ! j))) avg)) \<and>
                   (m = 0 \<or> m = 255 \<longrightarrow>
                      h1 = set_all h0 (map ((!) data) [i - 7..<i + 1]) RUN_OF_EIGHT_EXCEPTION \<and>
                      (\<forall>j\<in>{i - 7..i}.
                         status (h1 ! (data ! j)) = RUN_OF_EIGHT_EXCEPTION \<and>
                         status (checkRunOfEight h data avg ! (data ! j)) = RUN_OF_EIGHT_EXCEPTION)) \<and>
                   (m \<noteq> 0 \<and> m \<noteq> 255 \<longrightarrow> h1 = h0))))"
proof -
  have 1: "length data < 8 \<longrightarrow> checkRunOfEight h data avg = h"
    by (simp add: checkRunOfEight_def)
  have 2: "bit (fst (runOfEight_loop h data avg 7)) b \<longleftrightarrow>
                   b < 7 \<and> js_gt (num_value (h ! (data ! b))) avg" for b
    using runOfEight_prime_bits [of 7 h data avg b] by (simp add: runOfEight_loop_7 above_def)
  have 3: "8 \<le> length data \<longrightarrow>
      checkRunOfEight h data avg = snd (runOfEight_loop h data avg (length data))"
    by (simp add: checkRunOfEight_def)
  have 4: "let m = fst (runOfEight_loop h data avg (Suc i));
                    h0 = snd (runOfEight_loop h data avg i);
                    h1 = snd (runOfEight_loop h data avg (Suc i))
                in 0 \<le> m \<and> m < 256 \<and>
                   (\<forall>j\<in>{i - 7..i}. bit m (j mod 8) \<longleftrightarrow> js_gt (num_value (h ! (data ! j))) avg) \<and>
                   (m = 255 \<longleftrightarrow> (\<forall>j\<in>{i - 7..i}. js_gt (num_value (h ! (data ! j))) avg)) \<and>
                   (m = 0 \<longleftrightarrow> (\<forall>j\<in>{i - 7..i}. \<not> js_gt (num_value (h ! (data ! j))) avg)) \<and>
                   (m = 0 \<or> m = 255 \<longrightarrow>
                      h1 = set_all h0 (map ((!) data) [i - 7..<i + 1]) RUN_OF_EIGHT_EXCEPTION \<and>
                      (\<forall>j\<in>{i - 7..i}.
                         status (h1 ! (data ! j)) = RUN_OF_EIGHT_EXCEPTION \<and>
                         status (checkRunOfEight h data avg ! (data ! j)) = RUN_OF_EIGHT_EXCEPTION)) \<and>
                   (m \<noteq> 0 \<and> m \<noteq> 255 \<longrightarrow> h1 = h0)"
    if i: "7 \<le> i" "i < length data" for i
  proof -
    obtain m0 h0 where s0: "runOfEight_loop h data avg i = (m0, h0)"
      by (cases "runOfEight_loop h data avg i")
    from runOfEight_loop_inv [OF i(1), of h data avg] s0
    have m0: "mask_bits h data avg i m0" and sd0: "same_data h h0" by simp_all
    define m where "m = (if above h data avg i then m0 OR push_bit (i mod 8) 1
                         else m0 AND NOT (push_bit (i mod 8) 1))"
    define h1 where "h1 = (if uniform_window h data avg i
            then set_all h0 (map ((!) data) [i - 7..<Suc i]) RUN_OF_EIGHT_EXCEPTION else h0)"
    have s1: "runOfEight_loop h data avg (Suc i) = (m, h1)"
      unfolding runOfEight_loop_Suc [OF i(1)] s0 m_def h1_def
      using m0 i(1) sd0 by (rule runOfEight_step_eq)
    have mb: "mask_bits h data avg (Suc i) m"
      unfolding m_def using m0 by (rule mask_bits_step)
    have bits: "bit m b \<longleftrightarrow> (\<exists>j. Suc i - 8 \<le> j \<and> j < Suc i \<and> j mod 8 = b \<and> above h data avg j)" for b
      using mb by (simp add: mask_bits_def)
    have z: "m = 0 \<longleftrightarrow> (\<forall>j\<in>{i - 7..i}. \<not> above h data avg j)"
      using mb by (rule mask_bits_zero)
    have f: "m = 255 \<longleftrightarrow> (\<forall>j\<in>{i - 7..i}. above h data avg j)"
      using mb i(1) by (rule mask_bits_255)
    have uw: "uniform_window h data avg i \<longleftrightarrow> m = 0 \<or> m = 255"
      unfolding uniform_window_def z f by blast
    have range: "0 \<le> m \<and> m < 256"
    proof -
      have "\<not> bit m b" if "8 \<le> b" for b
        using that bits [of b] by (auto simp: not_le [symmetric])
      then have "take_bit 8 m = m"
        by (auto simp: bit_eq_iff bit_take_bit_iff not_le [symmetric])
      then show ?thesis
        using take_bit_nonnegative [of 8 m] take_bit_int_less_exp [of 8 m] by simp
    qed
    have bj: "bit m (j mod 8) \<longleftrightarrow> above h data avg j" if "j \<in> {i - 7..i}" for j
    proof
      assume "bit m (j mod 8)"
      then obtain j' where j': "Suc i - 8 \<le> j'" "j' < Suc i" "j' mod 8 = j mod 8" "above h data avg j'"
        using bits by blast
      from j'(1-3) that have "j' = j" using window_arith4 [of i j' j] by simp
      with j' show "above h data avg j" by simp
    next
      assume "above h data avg j"
      with that show "bit m (j mod 8)" using bits [of "j mod 8"] by auto
    qed
    have fin: "status (h1 ! (data ! j)) = RUN_OF_EIGHT_EXCEPTION \<and>
               status (checkRunOfEight h data avg ! (data ! j)) = RUN_OF_EIGHT_EXCEPTION"
      if u: "m = 0 \<or> m = 255" and j: "j \<in> {i - 7..i}" for j
    proof -
      have jl: "j < length data" using j i by simp
      then have r: "data ! j < length h" using assms by simp
      have w: "uniform_window h data avg i" using u uw by simp
      have len: "length h0 = length h" using sd0 by (rule same_data_length)
      have a: "status (h1 ! (data ! j)) = RUN_OF_EIGHT_EXCEPTION"
        unfolding h1_def using w j r len by (simp add: status_set_window del: upt_Suc)
      have "run_marked h data avg (length data) (data ! j)"
        unfolding run_marked_def using w j i by auto
      then have b: "status (checkRunOfEight h data avg ! (data ! j)) = RUN_OF_EIGHT_EXCEPTION"
        unfolding status_checkRunOfEight using r i by simp
      from a b show ?thesis by blast
    qed
    show ?thesis
      unfolding s0 s1 Let_def fst_conv snd_conv
      using range bj z f fin uw
      by (auto simp: above_def h1_def simp del: upt_Suc)
  qed
  from 1 2 3 4 show ?thesis by blast
qed

theorem checkRunOfEight_rolling_mask_witness:
  "length nine_tens = 9 \<and>
   length [0 :: nat] < 8 \<and> checkRunOfEight nine_tens [0] (Num 10) = nine_tens \<and>
   8 \<le> length [0..<9 :: nat] \<and> 7 \<le> (8 :: nat) \<and> 8 < length [0..<9 :: nat] \<and>
   fst (runOfEight_loop nine_tens [0..<9] (Num 10) (Suc 8)) = 0 \<and>
   status (checkRunOfEight nine_tens [0..<9] (Num 10) ! 1) = RUN_OF_EIGHT_EXCEPTION \<and>
   status (checkRunOfEight nine_tens [0..<9] (Num 10) ! 8) = RUN_OF_EIGHT_EXCEPTION"
proof -
  have n: "length nine_tens = 9" by (simp add: nine_tens_def)
  have v: "\<forall>r\<in>set [0..<9]. r < length nine_tens" by (simp add: nine_tens_def)
  have v0: "\<forall>r\<in>set [0]. r < length nine_tens" by (simp add: nine_tens_def)
  have s: "length [0 :: nat] < 8" by simp
  have l: "8 \<le> length [0..<9 :: nat]" by simp
  have i: "7 \<le> (8 :: nat) \<and> 8 < length [0..<9 :: nat]" by simp
  have u: "\<forall>j\<in>{8 - 7..8}. \<not> js_gt (num_value (nine_tens ! ([0..<9] ! j))) (Num 10)"
    by (simp add: nine_tens_def num_value_def js_gt_def del: upt_Suc)
  from checkRunOfEight_rolling_mask [OF v0, of "Num 10"] s
  have short: "checkRunOfEight nine_tens [0] (Num 10) = nine_tens" by blast
  from checkRunOfEight_rolling_mask [OF v, of "Num 10"] l i
  have b: "let m = fst (runOfEight_loop nine_tens [0..<9] (Num 10) (Suc 8));
               h0 = snd (runOfEight_loop nine_tens [0..<9] (Num 10) 8);
               h1 = snd (runOfEight_loop nine_tens [0..<9] (Num 10) (Suc 8))
           in 0 \<le> m \<and> m < 256 \<and>
              (\<forall>j\<in>{8 - 7..8}. bit m (j mod 8) \<longleftrightarrow> js_gt (num_value (nine_tens ! ([0..<9] ! j))) (Num 10)) \<and>
              (m = 255 \<longleftrightarrow> (\<forall>j\<in>{8 - 7..8}. js_gt (num_value (nine_tens ! ([0..<9] ! j))) (Num 10))) \<and>
              (m = 0 \<longleftrightarrow> (\<forall>j\<in>{8 - 7..8}. \<not> js_gt (num_value (nine_tens ! ([0..<9] ! j))) (Num 10))) \<and>
              (m = 0 \<or> m = 255 \<longrightarrow>
                 h1 = set_all h0 (map ((!) [0..<9]) [8 - 7..<8 + 1]) RUN_OF_EIGHT_EXCEPTION \<and>
                 (\<forall>j\<in>{8 - 7..8}.
                    status (h1 ! ([0..<9] ! j)) = RUN_OF_EIGHT_EXCEPTION \<and>
                    status (checkRunOfEight nine_tens [0..<9] (Num 10) ! ([0..<9] ! j)) = RUN_OF_EIGHT_EXCEPTION)) \<and>
              (m \<noteq> 0 \<and> m \<noteq> 255 \<longrightarrow> h1 = h0)"
    by blast
  from b u have m: "fst (runOfEight_loop nine_tens [0..<9] (Num 10) (Suc 8)) = 0"
    unfolding Let_def by blast
  from b m have r: "\<forall>j\<in>{8 - 7..8}. status (checkRunOfEight nine_tens [0..<9] (Num 10) ! ([0..<9] ! j)) =
      RUN_OF_EIGHT_EXCEPTION"
    unfolding Let_def by blast
  from r have r1: "status (checkRunOfEight nine_tens [0..<9] (Num 10) ! ([0..<9] ! 1)) =
      RUN_OF_EIGHT_EXCEPTION" by simp
  from r have r8: "status (checkRunOfEight nine_tens [0..<9] (Num 10) ! ([0..<9] ! 8)) =
      RUN_OF_EIGHT_EXCEPTION" by simp
  have "[0..<9] ! 1 = (1 :: nat)" "[0..<9] ! 8 = (8 :: nat)" by (simp_all del: upt_Suc)
  with r1 r8 have e: "status (checkRunOfEight nine_tens [0..<9] (Num 10) ! 1) = RUN_OF_EIGHT_EXCEPTION \<and>
    status (checkRunOfEight nine_tens [0..<9] (Num 10) ! 8) = RUN_OF_EIGHT_EXCEPTION" by simp
  from n s short l i m e show ?thesis by blast
qed

section \<open>Four near limit\<close>

lemma js_lt_trans: "js_lt a b \<Longrightarrow> js_lt b c \<Longrightarrow> js_lt a c"
  by (cases a; cases b; cases c) auto

lemma above_only_ordered:
  assumes "\<not> js_lt upperQ lowerQ"
  shows "above_only h data lowerQ upperQ = (\<lambda>j. js_gt (num_value (h ! (data ! j))) upperQ)"
proof
  fix j
  have "\<not> (js_lt (num_value (h ! (data ! j))) lowerQ \<and> js_lt upperQ (num_value (h ! (data ! j))))"
    using assms js_lt_trans by blast
  then show "above_only h data lowerQ upperQ j = js_gt (num_value (h ! (data ! j))) upperQ"
    by (auto simp: above_only_def js_gt_def)
qed

text \<open>
  C2: \<^verbatim>\<open>checkFourNearLimit\<close> leaves a series of fewer than 4 points as it is. On a
  longer one, with an upper quarter marker that is not below the lower one, the two
  counters count the points strictly below the lower marker and the points strictly
  above the upper marker. On entry of the iteration for a position \<open>i \<ge> 3\<close> they
  count over the 3 positions before \<open>i\<close> (for \<open>i = 3\<close> these are the contributions of
  positions 0 to 2, added and never taken away); then point \<open>i\<close> is added, and the test
  is on the counts over the 4 positions \<open>i - 3\<close> to \<open>i\<close>: when one is at least 3 these 4
  points get the status \<^verbatim>\<open>FOUR_NEAR_LIMIT_EXCEPTION\<close>, which they still have when
  the check returns, and otherwise nothing is written; only then the contribution of
  point \<open>i - 3\<close> is taken away, which leaves the counts over \<open>i - 2\<close> to \<open>i\<close>.
\<close>

theorem checkFourNearLimit_counters:
  assumes "\<forall>r\<in>set data. r < length h" and "\<not> js_lt upperQ lowerQ"
  shows "(length data < 4 \<longrightarrow> checkFourNearLimit h data lowerQ upperQ = h) \<and>
         (4 \<le> length data \<longrightarrow>
            checkFourNearLimit h data lowerQ upperQ =
              snd (fourNearLimit_loop h data lowerQ upperQ (length data)) \<and>
            (\<forall>i. 3 \<le> i \<and> i < length data \<longrightarrow>
               (let lo = (\<lambda>j. js_lt (num_value (h ! (data ! j))) lowerQ);
                    hi = (\<lambda>j. js_gt (num_value (h ! (data ! j))) upperQ);
                    c0 = fst (fourNearLimit_loop h data lowerQ upperQ i);
                    h0 = snd (fourNearLimit_loop h data lowerQ upperQ i);
                    c1 = fst (fourNearLimit_loop h data lowerQ upperQ (Suc i));
                    h1 = snd (fourNearLimit_loop h data lowerQ upperQ (Suc i));
                    belowQuartile = count_in lo [i - 3..<i + 1];
                    aboveQuartile = count_in hi [i - 3..<i + 1]
                in c0 = (count_in lo [i - 3..<i], count_in hi [i - 3..<i]) \<and>
                   (3 \<le> belowQuartile \<or> 3 \<le> aboveQuartile \<longrightarrow>
                      h1 = set_all h0 (map ((!) data) [i - 3..<i + 1]) FOUR_NEAR_LIMIT_EXCEPTION \<and>
                      (\<forall>j\<in>{i - 3..i}.
                         status (h1 ! (data ! j)) = FOUR_NEAR_LIMIT_EXCEPTION \<and>
                         status (checkFourNearLimit h data lowerQ upperQ ! (data ! j)) =
                           FOUR_NEAR_LIMIT_EXCEPTION)) \<and>
                   (\<not> (3 \<le> belowQuartile \<or> 3 \<le> aboveQuartile) \<longrightarrow> h1 = h0) \<and>
                   c1 = (belowQuartile - (if lo (i - 3) then 1 else 0),
                         aboveQuartile - (if hi (i - 3) then 1 else 0)) \<and>
                   c1 = (count_in lo [i - 2..<i + 1], count_in hi [i - 2..<i + 1]))))"
proof -
  have ao: "above_only h data lowerQ upperQ = (\<lambda>j. js_gt (num_value (h ! (data ! j))) upperQ)"
    using assms(2) by (rule above_only_ordered)
  have bo: "below h data lowerQ = (\<lambda>j. js_lt (num_value (h ! (data ! j))) lowerQ)"
    by (rule ext) (simp add: below_def)
  have 1: "length data < 4 \<longrightarrow> checkFourNearLimit h data lowerQ upperQ = h"
    by (simp add: checkFourNearLimit_def)
  have 2: "4 \<le> length data \<longrightarrow> checkFourNearLimit h data lowerQ upperQ =
              snd (fourNearLimit_loop h data lowerQ upperQ (length data))"
    by (simp add: checkFourNearLimit_def)
  have 3: "let lo = (\<lambda>j. js_lt (num_value (h ! (data ! j))) lowerQ);
                    hi = (\<lambda>j. js_gt (num_value (h ! (data ! j))) upperQ);
                    c0 = fst (fourNearLimit_loop h data lowerQ upperQ i);
                    h0 = snd (fourNearLimit_loop h data lowerQ upperQ i);
                    c1 = fst (fourNearLimit_loop h data lowerQ upperQ (Suc i));
                    h1 = snd (fourNearLimit_loop h data lowerQ upperQ (Suc i));
                    belowQuartile = count_in lo [i - 3..<i + 1];
                    aboveQuartile = count_in hi [i - 3..<i + 1]
                in c0 = (count_in lo [i - 3..<i], count_in hi [i - 3..<i]) \<and>
                   (3 \<le> belowQuartile \<or> 3 \<le> aboveQuartile \<longrightarrow>
                      h1 = set_all h0 (map ((!) data) [i - 3..<i + 1]) FOUR_NEAR_LIMIT_EXCEPTION \<and>
                      (\<forall>j\<in>{i - 3..i}.
                         status (h1 ! (data ! j)) = FOUR_NEAR_LIMIT_EXCEPTION \<and>
                         status (checkFourNearLimit h data lowerQ upperQ ! (data ! j)) =
                           FOUR_NEAR_LIMIT_EXCEPTION)) \<and>
                   (\<not> (3 \<le> belowQuartile \<or> 3 \<le> aboveQuartile) \<longrightarrow> h1 = h0) \<and>
                   c1 = (belowQuartile - (if lo (i - 3) then 1 else 0),
                         aboveQuartile - (if hi (i - 3) then 1 else 0)) \<and>
                   c1 = (count_in lo [i - 2..<i + 1], count_in hi [i - 2..<i + 1])"
    if i: "3 \<le> i" "i < length data" for i
  proof -
    let ?lo = "below h data lowerQ" and ?hi = "above_only h data lowerQ upperQ"
    obtain c0 h0 where s0: "fourNearLimit_loop h data lowerQ upperQ i = (c0, h0)"
      by (cases "fourNearLimit_loop h data lowerQ upperQ i")
    from fourNearLimit_loop_inv [OF i(1), of h data lowerQ upperQ] s0
    have c0: "c0 = (count_in ?lo [i - 3..<i], count_in ?hi [i - 3..<i])" and sd0: "same_data h h0"
      by simp_all
    define h1 where "h1 = (if near_window h data lowerQ upperQ i
            then set_all h0 (map ((!) data) [i - 3..<Suc i]) FOUR_NEAR_LIMIT_EXCEPTION else h0)"
    have s1: "fourNearLimit_loop h data lowerQ upperQ (Suc i) =
        ((count_in ?lo [Suc i - 3..<Suc i], count_in ?hi [Suc i - 3..<Suc i]), h1)"
      unfolding fourNearLimit_loop_Suc [OF i(1)] s0 c0 h1_def
      using sd0 i(1) by (rule fourNearLimit_step_eq)
    have i2: "Suc i - 3 = i - 2" by simp
    have sub: "count_in P [i - 2..<Suc i] = count_in P [i - 3..<Suc i] - (if P (i - 3) then 1 else 0)" for P
      using window4_sub [OF i(1), of P] unfolding i2 by (cases "P (i - 3)") (simp_all del: upt_Suc)
    have fin: "status (h1 ! (data ! j)) = FOUR_NEAR_LIMIT_EXCEPTION \<and>
               status (checkFourNearLimit h data lowerQ upperQ ! (data ! j)) = FOUR_NEAR_LIMIT_EXCEPTION"
      if w: "near_window h data lowerQ upperQ i" and j: "j \<in> {i - 3..i}" for j
    proof -
      have jl: "j < length data" using j i by simp
      then have r: "data ! j < length h" using assms(1) by simp
      have len: "length h0 = length h" using sd0 by (rule same_data_length)
      have a: "status (h1 ! (data ! j)) = FOUR_NEAR_LIMIT_EXCEPTION"
        unfolding h1_def using w j r len by (simp add: status_set_window4 del: upt_Suc)
      have "four_marked h data lowerQ upperQ (length data) (data ! j)"
        unfolding four_marked_def using w j i by auto
      then have b: "status (checkFourNearLimit h data lowerQ upperQ ! (data ! j)) = FOUR_NEAR_LIMIT_EXCEPTION"
        unfolding status_checkFourNearLimit using r i by simp
      from a b show ?thesis by blast
    qed
    show ?thesis
      unfolding s0 s1 Let_def fst_conv snd_conv c0 ao [symmetric] bo [symmetric] i2
        Suc_eq_plus1 [symmetric]
      using fin sub [of ?lo] sub [of ?hi]
      by (auto simp: h1_def near_window_def simp del: upt_Suc)
  qed
  from 1 2 3 show ?thesis by blast
qed

theorem checkFourNearLimit_counters_witness:
  "length three_of_four = 4 \<and> \<not> js_lt (Num 10) (Num 5) \<and>
   length [0 :: nat] < 4 \<and> checkFourNearLimit three_of_four [0] (Num 5) (Num 10) = three_of_four \<and>
   4 \<le> length [0, 1, 2, 3 :: nat] \<and> 3 \<le> (3 :: nat) \<and> 3 < length [0, 1, 2, 3 :: nat] \<and>
   3 \<le> count_in (\<lambda>j. js_gt (num_value (three_of_four ! ([0, 1, 2, 3] ! j))) (Num 10)) [3 - 3..<3 + 1] \<and>
   status (checkFourNearLimit three_of_four [0, 1, 2, 3] (Num 5) (Num 10) ! 0) = FOUR_NEAR_LIMIT_EXCEPTION \<and>
   status (checkFourNearLimit three_of_four [0, 1, 2, 3] (Num 5) (Num 10) ! 2) = FOUR_NEAR_LIMIT_EXCEPTION \<and>
   status (checkFourNearLimit three_of_four [0, 1, 2, 3] (Num 5) (Num 10) ! 3) = FOUR_NEAR_LIMIT_EXCEPTION"
proof -
  have n: "length three_of_four = 4" by (simp add: three_of_four_def)
  have v: "\<forall>r\<in>set [0, 1, 2, 3]. r < length three_of_four" by (simp add: three_of_four_def)
  have v0: "\<forall>r\<in>set [0]. r < length three_of_four" by (simp add: three_of_four_def)
  have o: "\<not> js_lt (Num 10) (Num 5)" by simp
  have s: "length [0 :: nat] < 4" by simp
  have l: "4 \<le> length [0, 1, 2, 3 :: nat]" by simp
  have i: "3 \<le> (3 :: nat) \<and> 3 < length [0, 1, 2, 3 :: nat]" by simp
  have c: "3 \<le> count_in (\<lambda>j. js_gt (num_value (three_of_four ! ([0, 1, 2, 3] ! j))) (Num 10)) [3 - 3..<3 + 1]"
    by code_simp
  from checkFourNearLimit_counters [OF v0 o] s
  have short: "checkFourNearLimit three_of_four [0] (Num 5) (Num 10) = three_of_four" by blast
  from checkFourNearLimit_counters [OF v o] l
  have "\<forall>i. 3 \<le> i \<and> i < length [0, 1, 2, 3 :: nat] \<longrightarrow>
     (3 \<le> count_in (\<lambda>j. js_lt (num_value (three_of_four ! ([0, 1, 2, 3] ! j))) (Num 5)) [i - 3..<i + 1] \<or>
      3 \<le> count_in (\<lambda>j. js_gt (num_value (three_of_four ! ([0, 1, 2, 3] ! j))) (Num 10)) [i - 3..<i + 1] \<longrightarrow>
      (\<forall>j\<in>{i - 3..i}.
         status (checkFourNearLimit three_of_four [0, 1, 2, 3] (Num 5) (Num 10) ! ([0, 1, 2, 3] ! j)) =
           FOUR_NEAR_LIMIT_EXCEPTION))"
    unfolding Let_def by blast
  with i c have r: "\<forall>j\<in>{3 - 3..3}.
      status (checkFourNearLimit three_of_four [0, 1, 2, 3] (Num 5) (Num 10) ! ([0, 1, 2, 3] ! j)) =
        FOUR_NEAR_LIMIT_EXCEPTION"
    by blast
  have m0: "(0 :: nat) \<in> {3 - 3..3}" and m2: "(2 :: nat) \<in> {3 - 3..3}"
    and m3: "(3 :: nat) \<in> {3 - 3..3}" by simp_all
  from bspec [OF r m0]
  have r0: "status (checkFourNearLimit three_of_four [0, 1, 2, 3] (Num 5) (Num 10) ! 0) =
        FOUR_NEAR_LIMIT_EXCEPTION" by simp
  from bspec [OF r m2]
  have r2: "status (checkFourNearLimit three_of_four [0, 1, 2, 3] (Num 5) (Num 10) ! 2) =
        FOUR_NEAR_LIMIT_EXCEPTION" by simp
  from bspec [OF r m3]
  have r3: "status (checkFourNearLimit three_of_four [0, 1, 2, 3] (Num 5) (Num 10) ! 3) =
        FOUR_NEAR_LIMIT_EXCEPTION" by simp
  from n o s short l i c r0 r2 r3 show ?thesis by blast
qed

section \<open>The movement series\<close>

lemma getMovements_eighth_apart:
  "getMovements eighth_apart [0, 1] =
     (eighth_apart @ [\<lparr>order = 1, x = Some ''2024-01-02'', value = Some (binary64 0.13), status = NORMAL\<rparr>],
      [2])"
proof -
  have v: "\<forall>r\<in>set [0, 1]. r < length eighth_apart" by (simp add: eighth_apart_def)
  have "[1..<length [0, 1 :: nat]] = [1]" "[length eighth_apart..<length eighth_apart + (length [0, 1 :: nat] - 1)] = [2]"
    by (simp_all add: eighth_apart_def)
  moreover have "round_js (Math_abs (js_sub (Num 0.125) (Num 0))) DECIMAL_POINT = binary64 0.13"
    by (simp add: js_sub_def round_js_def DECIMAL_POINT_def binary64_eval cong: let_weak_cong)
  ultimately show ?thesis
    unfolding getMovements_eq [OF v]
    by (simp add: movement_def eighth_apart_def num_value_def)
qed

text \<open>
  Claim C5 as it is stated gives the movement the value \<open>|v[i] - v[i-1]|\<close>. For the values
  0 and 0.125 that is 0.125; the movement that \<^verbatim>\<open>getMovements\<close> makes has the value
  0.13.
\<close>

theorem getMovements_value_counterexample:
  "value (fst (getMovements eighth_apart [0, 1]) ! (snd (getMovements eighth_apart [0, 1]) ! 0)) =
     Some (binary64 0.13) \<and>
   Math_abs (js_sub (num_value (eighth_apart ! ([0, 1] ! 1))) (num_value (eighth_apart ! ([0, 1] ! 0)))) =
     Num 0.125 \<and>
   value (fst (getMovements eighth_apart [0, 1]) ! (snd (getMovements eighth_apart [0, 1]) ! 0)) \<noteq>
     Some (Math_abs (js_sub (num_value (eighth_apart ! ([0, 1] ! 1)))
                            (num_value (eighth_apart ! ([0, 1] ! 0)))))"
proof -
  have 1: "value (fst (getMovements eighth_apart [0, 1]) ! (snd (getMovements eighth_apart [0, 1]) ! 0)) =
     Some (binary64 0.13)"
    unfolding getMovements_eighth_apart by (simp add: eighth_apart_def)
  have 2: "Math_abs (js_sub (num_value (eighth_apart ! ([0, 1] ! 1))) (num_value (eighth_apart ! ([0, 1] ! 0)))) =
     Num 0.125"
    by (simp add: eighth_apart_def num_value_def js_sub_def binary64_eval cong: let_weak_cong)
  have 3: "binary64 0.13 \<noteq> Num 0.125"
    by (simp add: binary64_eval cong: let_weak_cong)
  from 1 2 3 show ?thesis by simp
qed

text \<open>
  C5, amended: for a value series of \<open>n\<close> points (references to objects of the store),
  \<^verbatim>\<open>getMovements\<close> makes \<open>max (n - 1) 0\<close> new, distinct objects and changes no
  existing one; for \<open>1 \<le> i \<le> n - 1\<close> the movement at position \<open>i - 1\<close> has the
  \<open>order\<close> and the \<open>x\<close> of point \<open>i\<close>, the later of its two source points, the value
  \<^verbatim>\<open>round(Math.abs(v[i] - v[i-1]))\<close>, the absolute difference rounded to 2 decimal
  places by \<^verbatim>\<open>round\<close>, and the status \<^verbatim>\<open>NORMAL\<close> whatever the statuses of the
  source points.
\<close>

theorem getMovements_series:
  assumes "\<forall>r\<in>set xdata. r < length h"
  shows "int (length (snd (getMovements h xdata))) = max (int (length xdata) - 1) 0 \<and>
         distinct (snd (getMovements h xdata)) \<and>
         (\<forall>m\<in>set (snd (getMovements h xdata)). length h \<le> m \<and> m < length (fst (getMovements h xdata))) \<and>
         (\<forall>r<length h. fst (getMovements h xdata) ! r = h ! r) \<and>
         (\<forall>i. 1 \<le> i \<and> i < length xdata \<longrightarrow>
            (let m = fst (getMovements h xdata) ! (snd (getMovements h xdata) ! (i - 1)) in
               order m = order (h ! (xdata ! i)) \<and>
               x m = x (h ! (xdata ! i)) \<and>
               value m = Some (round_js (Math_abs (js_sub (num_value (h ! (xdata ! i)))
                                                          (num_value (h ! (xdata ! (i - 1)))))) DECIMAL_POINT) \<and>
               status m = NORMAL))"
proof -
  let ?n = "length xdata"
  have eq: "getMovements h xdata =
           (h @ map (movement h xdata) [1..<?n], [length h..<length h + (?n - 1)])"
    using assms by (rule getMovements_eq)
  have 1: "int (length (snd (getMovements h xdata))) = max (int ?n - 1) 0"
    unfolding eq by simp
  have 2: "distinct (snd (getMovements h xdata))"
    unfolding eq by simp
  have 3: "\<forall>m\<in>set (snd (getMovements h xdata)). length h \<le> m \<and> m < length (fst (getMovements h xdata))"
    unfolding eq by auto
  have 4: "\<forall>r<length h. fst (getMovements h xdata) ! r = h ! r"
    unfolding eq by (simp add: nth_append)
  have 5: "let m = fst (getMovements h xdata) ! (snd (getMovements h xdata) ! (i - 1)) in
               order m = order (h ! (xdata ! i)) \<and>
               x m = x (h ! (xdata ! i)) \<and>
               value m = Some (round_js (Math_abs (js_sub (num_value (h ! (xdata ! i)))
                                                          (num_value (h ! (xdata ! (i - 1)))))) DECIMAL_POINT) \<and>
               status m = NORMAL"
    if i: "1 \<le> i" "i < ?n" for i
  proof -
    have k: "i - 1 < ?n - 1" using i by simp
    then have "snd (getMovements h xdata) ! (i - 1) = length h + (i - 1)"
      unfolding eq by simp
    moreover have "(h @ map (movement h xdata) [1..<?n]) ! (length h + (i - 1)) = movement h xdata i"
      using i k by (simp add: nth_append)
    ultimately have m: "fst (getMovements h xdata) ! (snd (getMovements h xdata) ! (i - 1)) = movement h xdata i"
      unfolding eq by simp
    show ?thesis
      unfolding m Let_def by (simp add: movement_def)
  qed
  from 1 2 3 4 5 show ?thesis by blast
qed

theorem getMovements_series_witness:
  "length eighth_apart = 2 \<and>
   int (length (snd (getMovements eighth_apart [0, 1]))) = max (int (length [0, 1 :: nat]) - 1) 0 \<and>
   1 \<le> (1 :: nat) \<and> 1 < length [0, 1 :: nat] \<and>
   num_value (eighth_apart ! ([0, 1] ! 1)) = Num 0.125 \<and>
   num_value (eighth_apart ! ([0, 1] ! (1 - 1))) = Num 0 \<and>
   status (eighth_apart ! ([0, 1] ! 1)) = NPL_EXCEPTION \<and>
   value (fst (getMovements eighth_apart [0, 1]) ! (snd (getMovements eighth_apart [0, 1]) ! (1 - 1))) =
     Some (binary64 0.13) \<and>
   order (fst (getMovements eighth_apart [0, 1]) ! (snd (getMovements eighth_apart [0, 1]) ! (1 - 1))) = 1 \<and>
   x (fst (getMovements eighth_apart [0, 1]) ! (snd (getMovements eighth_apart [0, 1]) ! (1 - 1))) =
     Some ''2024-01-02'' \<and>
   status (fst (getMovements eighth_apart [0, 1]) ! (snd (getMovements eighth_apart [0, 1]) ! (1 - 1))) =
     NORMAL"
proof -
  have n: "length eighth_apart = 2" by (simp add: eighth_apart_def)
  have v: "\<forall>r\<in>set [0, 1]. r < length eighth_apart" by (simp add: eighth_apart_def)
  have i: "1 \<le> (1 :: nat) \<and> 1 < length [0, 1 :: nat]" by simp
  have a: "num_value (eighth_apart ! ([0, 1] ! 1)) = Num 0.125"
    and b: "num_value (eighth_apart ! ([0, 1] ! (1 - 1))) = Num 0"
    and s: "status (eighth_apart ! ([0, 1] ! 1)) = NPL_EXCEPTION"
    and o: "order (eighth_apart ! ([0, 1] ! 1)) = 1"
    and d: "x (eighth_apart ! ([0, 1] ! 1)) = Some ''2024-01-02''"
    by (simp_all add: eighth_apart_def num_value_def)
  have e: "round_js (Math_abs (js_sub (Num 0.125) (Num 0))) DECIMAL_POINT = binary64 0.13"
    by (simp add: js_sub_def round_js_def DECIMAL_POINT_def binary64_eval cong: let_weak_cong)
  note t = getMovements_series [OF v]
  from t have 1: "int (length (snd (getMovements eighth_apart [0, 1]))) = max (int (length [0, 1 :: nat]) - 1) 0"
    by blast
  from t i have "let m = fst (getMovements eighth_apart [0, 1]) ! (snd (getMovements eighth_apart [0, 1]) ! (1 - 1)) in
               order m = order (eighth_apart ! ([0, 1] ! 1)) \<and>
               x m = x (eighth_apart ! ([0, 1] ! 1)) \<and>
               value m = Some (round_js (Math_abs (js_sub (num_value (eighth_apart ! ([0, 1] ! 1)))
                                                          (num_value (eighth_apart ! ([0, 1] ! (1 - 1)))))) DECIMAL_POINT) \<and>
               status m = NORMAL"
    by blast
  then have 2: "value (fst (getMovements eighth_apart [0, 1]) ! (snd (getMovements eighth_apart [0, 1]) ! (1 - 1))) =
     Some (binary64 0.13) \<and>
   order (fst (getMovements eighth_apart [0, 1]) ! (snd (getMovements eighth_apart [0, 1]) ! (1 - 1))) = 1 \<and>
   x (fst (getMovements eighth_apart [0, 1]) ! (snd (getMovements eighth_apart [0, 1]) ! (1 - 1))) =
     Some ''2024-01-02'' \<and>
   status (fst (getMovements eighth_apart [0, 1]) ! (snd (getMovements eighth_apart [0, 1]) ! (1 - 1))) =
     NORMAL"
    unfolding Let_def a b o d e by blast
  from n 1 i a b s 2 show ?thesis by blast
qed

section \<open>The limits\<close>

lemma absolute_differences_length [simp]: "length (absolute_differences vs) = length vs - 1"
  by (induction vs rule: absolute_differences.induct) simp_all

lemma absolute_differences_nth:
  "Suc i < length vs \<Longrightarrow> absolute_differences vs ! i = Math_abs (js_sub (vs ! Suc i) (vs ! i))"
proof (induction vs arbitrary: i rule: absolute_differences.induct)
  case (1 a b vs)
  then show ?case by (cases i) simp_all
qed simp_all

lemma values_of_nth: "i < length xdata \<Longrightarrow> values_of h xdata ! i = num_value (h ! (xdata ! i))"
  by (simp add: values_of_def)

lemma length_values_of [simp]: "length (values_of h xdata) = length xdata"
  by (simp add: values_of_def)

lemma values_of_getMovements:
  assumes "\<forall>r\<in>set xdata. r < length h"
  shows "values_of (fst (getMovements h xdata)) xdata = values_of h xdata"
  unfolding getMovements_eq [OF assms] values_of_def using assms by (simp add: nth_append)

lemma movement_values_getMovements:
  assumes "\<forall>r\<in>set xdata. r < length h"
  shows "values_of (fst (getMovements h xdata)) (snd (getMovements h xdata)) =
           movement_values (values_of h xdata)"
proof (rule nth_equalityI)
  show "length (values_of (fst (getMovements h xdata)) (snd (getMovements h xdata))) =
          length (movement_values (values_of h xdata))"
    unfolding getMovements_eq [OF assms] by (simp add: movement_values_def)
next
  fix i
  assume "i < length (values_of (fst (getMovements h xdata)) (snd (getMovements h xdata)))"
  then have i: "i < length xdata - 1" unfolding getMovements_eq [OF assms] by simp
  then have i1: "Suc i < length xdata" "i < length xdata" by simp_all
  have "values_of (fst (getMovements h xdata)) (snd (getMovements h xdata)) ! i =
          num_value (movement h xdata (Suc i))"
    unfolding getMovements_eq [OF assms] using i by (simp add: values_of_def nth_append)
  also have "\<dots> = round_js (Math_abs (js_sub (values_of h xdata ! Suc i) (values_of h xdata ! i)))
                     DECIMAL_POINT"
    using i1 by (simp add: movement_def num_value_def values_of_nth)
  also have "\<dots> = movement_values (values_of h xdata) ! i"
    using i i1 by (simp add: movement_values_def absolute_differences_nth)
  finally show "values_of (fst (getMovements h xdata)) (snd (getMovements h xdata)) ! i =
                  movement_values (values_of h xdata) ! i" .
qed

lemma foldl_js_add_values:
  "foldl (\<lambda>a b. js_add a (num_value (h ! b))) s rs = foldl js_add s (values_of h rs)"
  by (simp add: values_of_def foldl_map)

lemma calculateLimits_values:
  assumes "\<forall>r\<in>set xdata. r < length h"
  shows "calculateLimits h xdata =
           limit_set (movement_values (values_of h xdata)) (values_of h xdata)"
proof -
  obtain h' ms where gm: "getMovements h xdata = (h', ms)" by (cases "getMovements h xdata")
  have 1: "values_of h' xdata = values_of h xdata"
    using values_of_getMovements [OF assms] by (simp add: gm)
  have 2: "values_of h' ms = movement_values (values_of h xdata)"
    using movement_values_getMovements [OF assms] by (simp add: gm)
  have "length (values_of h' ms) = length ms" by simp
  then have 3: "length ms = length (movement_values (values_of h xdata))" by (simp only: 2)
  show ?thesis
    unfolding calculateLimits_def calculateLimits_unrounded_def gm prod.case Let_def
      foldl_js_add_values 1 2 3 limit_set_def arithmetic_mean_def mean_movement_def
      NPL_SCALING_def URL_SCALING_def
    by simp
qed

lemmas limits_eval =
  limit_set_def arithmetic_mean_def mean_movement_def movement_values_def js_sub_def
  round_js_def DECIMAL_POINT_def binary64_eval

lemma limits_eighths:
  "calculateLimits eighths [0, 1, 2] =
     \<lparr>avgX = binary64 0.13, avgMovement = binary64 0.13, UNPL = binary64 0.47,
      LNPL = binary64 (- 0.22), URL = binary64 0.42, lowerQuartile = binary64 (- 0.05),
      upperQuartile = binary64 0.3\<rparr>"
proof -
  have v: "\<forall>r\<in>set [0, 1, 2]. r < length eighths" by (simp add: eighths_def)
  have vs: "values_of eighths [0, 1, 2] = [Num 0, Num 0.125, Num 0.25]"
    by (simp add: values_of_def eighths_def num_value_def)
  show ?thesis
    unfolding calculateLimits_values [OF v] vs
    by (simp add: limits_eval cong: let_weak_cong)
qed

lemma limits_eighth_apart:
  "calculateLimits eighth_apart [0, 1] =
     \<lparr>avgX = binary64 0.06, avgMovement = binary64 0.13, UNPL = binary64 0.41,
      LNPL = binary64 (- 0.28), URL = binary64 0.42, lowerQuartile = binary64 (- 0.11),
      upperQuartile = binary64 0.24\<rparr>"
proof -
  have v: "\<forall>r\<in>set [0, 1]. r < length eighth_apart" by (simp add: eighth_apart_def)
  have vs: "values_of eighth_apart [0, 1] = [Num 0, Num 0.125]"
    by (simp add: values_of_def eighth_apart_def num_value_def)
  show ?thesis
    unfolding calculateLimits_values [OF v] vs
    by (simp add: limits_eval cong: let_weak_cong)
qed

lemma limits_nine_tens:
  "calculateLimits nine_tens [0..<9] =
     \<lparr>avgX = Num 10, avgMovement = Num 0, UNPL = Num 10, LNPL = Num 10, URL = Num 0,
      lowerQuartile = Num 10, upperQuartile = Num 10\<rparr>"
proof -
  have v: "\<forall>r\<in>set [0..<9]. r < length nine_tens" by (simp add: nine_tens_def)
  have vs: "values_of nine_tens [0..<9] =
      [Num 10, Num 10, Num 10, Num 10, Num 10, Num 10, Num 10, Num 10, Num 10]"
    by code_simp
  show ?thesis
    unfolding calculateLimits_values [OF v] vs
    by (simp add: limits_eval cong: let_weak_cong)
qed

lemma limits_step_series:
  "calculateLimits step_series [0..<16] =
     \<lparr>avgX = Num 20, avgMovement = binary64 1.33, UNPL = binary64 23.55,
      LNPL = binary64 16.45, URL = binary64 4.36, lowerQuartile = binary64 18.23,
      upperQuartile = binary64 21.77\<rparr>"
proof -
  have v: "\<forall>r\<in>set [0..<16]. r < length step_series" by (simp add: step_series_def)
  have vs: "values_of step_series [0..<16] =
      [Num 10, Num 10, Num 10, Num 10, Num 10, Num 10, Num 10, Num 10,
       Num 30, Num 30, Num 30, Num 30, Num 30, Num 30, Num 30, Num 30]"
    by code_simp
  show ?thesis
    unfolding calculateLimits_values [OF v] vs
    by (simp add: limits_eval cong: let_weak_cong)
qed

text \<open>
  Claim C4 as it is stated takes the mean of the movement values, which the
  specification gives as \<open>|v[i] - v[i-1]|\<close>. For the values 0, 0.125 and 0.25 these
  are 0.125 and 0.125, and the upper natural limit of the claim is 0.46;
  \<^verbatim>\<open>calculateLimits\<close> takes the mean of the movements of \<^verbatim>\<open>getMovements\<close>, which
  are rounded, 0.13 and 0.13, and returns the upper natural limit 0.47.
\<close>

theorem calculateLimits_movements_counterexample:
  "values_of eighths [0, 1, 2] = [Num 0, Num 0.125, Num 0.25] \<and>
   absolute_differences (values_of eighths [0, 1, 2]) = [Num 0.125, Num 0.125] \<and>
   UNPL (limit_set (absolute_differences (values_of eighths [0, 1, 2])) (values_of eighths [0, 1, 2])) =
     binary64 0.46 \<and>
   UNPL (calculateLimits eighths [0, 1, 2]) = binary64 0.47 \<and>
   calculateLimits eighths [0, 1, 2] \<noteq>
     limit_set (absolute_differences (values_of eighths [0, 1, 2])) (values_of eighths [0, 1, 2])"
proof -
  have vs: "values_of eighths [0, 1, 2] = [Num 0, Num 0.125, Num 0.25]"
    by (simp add: values_of_def eighths_def num_value_def)
  have d: "absolute_differences [Num 0, Num 0.125, Num 0.25] = [Num 0.125, Num 0.125]"
    by (simp add: js_sub_def binary64_eval cong: let_weak_cong)
  have u: "UNPL (limit_set [Num 0.125, Num 0.125] [Num 0, Num 0.125, Num 0.25]) = binary64 0.46"
    by (simp add: limits_eval cong: let_weak_cong)
  have c: "UNPL (calculateLimits eighths [0, 1, 2]) = binary64 0.47"
    unfolding limits_eighths by simp
  have n: "binary64 0.47 \<noteq> binary64 0.46"
    by (simp add: binary64_eval cong: let_weak_cong)
  from u c n have "UNPL (calculateLimits eighths [0, 1, 2]) \<noteq>
      UNPL (limit_set [Num 0.125, Num 0.125] [Num 0, Num 0.125, Num 0.25])"
    by simp
  then have "calculateLimits eighths [0, 1, 2] \<noteq>
      limit_set [Num 0.125, Num 0.125] [Num 0, Num 0.125, Num 0.25]"
    by auto
  with vs d u c show ?thesis by simp
qed

text \<open>
  C4, amended: for a series of points of the store, \<^verbatim>\<open>calculateLimits\<close> returns, in
  the arithmetic of binary64 and with the sums taken from 0 in the order of the series,
  the mean of the values; the mean of the movement values that \<^verbatim>\<open>getMovements\<close>
  gives, which are the absolute differences \<open>|v[i] - v[i-1]|\<close> each rounded by
  \<^verbatim>\<open>round\<close>, and 0 for a single point (the denominator is then 1); the upper and
  lower natural limits \<open>mean \<plusminus> 2.66 \<times> meanMovement\<close>; the upper range limit
  \<open>3.268 \<times> meanMovement\<close>; and the quarter markers \<open>(limit + mean) / 2\<close>; each computed
  from the unrounded quantities and then rounded to 2 decimal places by \<^verbatim>\<open>round\<close>.
\<close>

theorem calculateLimits_limit_set:
  assumes "\<forall>r\<in>set xdata. r < length h"
  shows "calculateLimits h xdata =
           limit_set (movement_values (values_of h xdata)) (values_of h xdata) \<and>
         movement_values (values_of h xdata) =
           values_of (fst (getMovements h xdata)) (snd (getMovements h xdata)) \<and>
         (length xdata < 2 \<longrightarrow> mean_movement (movement_values (values_of h xdata)) = Num 0)"
proof -
  have "movement_values (values_of h xdata) = []" if "length xdata < 2"
  proof -
    have "length (movement_values (values_of h xdata)) = 0"
      using that by (simp add: movement_values_def)
    then show ?thesis by simp
  qed
  then have "length xdata < 2 \<longrightarrow> mean_movement (movement_values (values_of h xdata)) = Num 0"
    by (simp add: mean_movement_def)
  with calculateLimits_values [OF assms] movement_values_getMovements [OF assms]
  show ?thesis by simp
qed

theorem calculateLimits_limit_set_witness:
  "length three_points = 3 \<and>
   values_of three_points [0, 1, 2] = [Num 8, Num 4, Num 15] \<and>
   movement_values [Num 8, Num 4, Num 15] = [Num 4, Num 11] \<and>
   calculateLimits three_points [0, 1, 2] =
     \<lparr>avgX = Num 9, avgMovement = Num 7.5, UNPL = binary64 28.95, LNPL = binary64 (- 10.95),
      URL = binary64 24.51, lowerQuartile = binary64 (- 0.98), upperQuartile = binary64 18.98\<rparr> \<and>
   length [1 :: nat] < 2 \<and>
   values_of three_points [1] = [Num 4] \<and>
   mean_movement (movement_values (values_of three_points [1])) = Num 0 \<and>
   calculateLimits three_points [1] =
     \<lparr>avgX = Num 4, avgMovement = Num 0, UNPL = Num 4, LNPL = Num 4, URL = Num 0,
      lowerQuartile = Num 4, upperQuartile = Num 4\<rparr>"
proof -
  have n: "length three_points = 3" by (simp add: three_points_def)
  have v: "\<forall>r\<in>set [0, 1, 2]. r < length three_points" by (simp add: three_points_def)
  have vs: "values_of three_points [0, 1, 2] = [Num 8, Num 4, Num 15]"
    by (simp add: values_of_def three_points_def num_value_def)
  have ms: "movement_values [Num 8, Num 4, Num 15] = [Num 4, Num 11]"
    by (simp add: limits_eval cong: let_weak_cong)
  from calculateLimits_limit_set [OF v]
  have "calculateLimits three_points [0, 1, 2] =
          limit_set (movement_values [Num 8, Num 4, Num 15]) [Num 8, Num 4, Num 15]"
    unfolding vs by blast
  then have 1: "calculateLimits three_points [0, 1, 2] =
     \<lparr>avgX = Num 9, avgMovement = Num 7.5, UNPL = binary64 28.95, LNPL = binary64 (- 10.95),
      URL = binary64 24.51, lowerQuartile = binary64 (- 0.98), upperQuartile = binary64 18.98\<rparr>"
    by (simp add: limits_eval cong: let_weak_cong)
  have l: "length [1 :: nat] < 2" by simp
  have v1: "\<forall>r\<in>set [1]. r < length three_points" by (simp add: three_points_def)
  have vs1: "values_of three_points [1] = [Num 4]"
    by (simp add: values_of_def three_points_def num_value_def)
  from calculateLimits_limit_set [OF v1] l
  have 2: "mean_movement (movement_values (values_of three_points [1])) = Num 0"
    and "calculateLimits three_points [1] =
          limit_set (movement_values (values_of three_points [1])) (values_of three_points [1])"
    by blast+
  then have 3: "calculateLimits three_points [1] =
     \<lparr>avgX = Num 4, avgMovement = Num 0, UNPL = Num 4, LNPL = Num 4, URL = Num 0,
      lowerQuartile = Num 4, upperQuartile = Num 4\<rparr>"
    unfolding vs1 by (simp add: limits_eval cong: let_weak_cong)
  from n vs ms 1 l vs1 2 3 show ?thesis by blast
qed

section \<open>What \<^verbatim>\<open>computeXmrStats\<close> writes\<close>

lemma keeps_data_same: "same_data h h' \<Longrightarrow> keeps_data h h'"
  by (simp add: same_data_def keeps_data_def)

lemma keeps_data_append: "keeps_data h (h @ new)"
  by (simp add: keeps_data_def nth_append)

lemma keeps_data_trans: "keeps_data h h' \<Longrightarrow> keeps_data h' h'' \<Longrightarrow> keeps_data h h''"
  by (simp add: keeps_data_def)

lemma getMovements_step_extends:
  "\<exists>new. fst (foldl (getMovements_step xdata) (h, ms) js) = h @ new"
proof (induction js arbitrary: h ms)
  case Nil
  show ?case by simp
next
  case (Cons j js)
  obtain d where s: "getMovements_step xdata (h, ms) j = (h @ [d], ms @ [length h])"
    by (simp add: getMovements_step_def new_object_def Let_def)
  from Cons.IH [of "h @ [d]" "ms @ [length h]"] obtain new
    where "fst (foldl (getMovements_step xdata) (h @ [d], ms @ [length h]) js) = (h @ [d]) @ new"
    by blast
  then have "fst (foldl (getMovements_step xdata) (h, ms) (j # js)) = h @ ([d] @ new)"
    by (simp add: s)
  then show ?case by blast
qed

lemma keeps_data_getMovements: "keeps_data h (fst (getMovements h xdata))"
proof -
  obtain new where "fst (getMovements h xdata) = h @ new"
    unfolding getMovements_def using getMovements_step_extends by blast
  then show ?thesis by (simp add: keeps_data_append)
qed

lemma same_data_checkOutsideLimit: "same_data h (checkOutsideLimit h data lo hi)"
  using checkOutsideLimit_inv by blast

lemma status_checkOutsideLimit:
  "status (checkOutsideLimit h data lo hi ! r) =
      (if r \<in> set data \<and> r < length h \<and>
          (js_lt (num_value (h ! r)) lo \<or> js_gt (num_value (h ! r)) hi)
       then NPL_EXCEPTION else status (h ! r))"
  using checkOutsideLimit_inv by blast

lemma same_data_reset_status: "same_data h (reset_status h data)"
  by (simp add: reset_status_set_all)

lemma same_data_check_xdata: "same_data h (check_xdata h tableData l)"
  unfolding check_xdata_def Let_def
  by (meson same_data_trans same_data_reset_status same_data_checkRunOfEight
      same_data_checkFourNearLimit same_data_checkOutsideLimit)

lemma computeXmrStats_heap:
  "fst (computeXmrStats dayjs engine h data) =
     (let tableData = sortDataValues dayjs engine h (removeAllNulls h data) in
      if tableData = [] then h
      else let l = calculateLimits h tableData;
               h1 = check_xdata h tableData l;
               h2 = fst (getMovements h1 tableData);
               movements = snd (getMovements h1 tableData)
           in checkOutsideLimit (reset_status h2 movements) movements (Num 0) (URL l))"
  by (simp add: computeXmrStats_def Let_def split: prod.split)

lemma keeps_data_computeXmrStats: "keeps_data h (fst (computeXmrStats dayjs engine h data))"
proof -
  let ?t = "sortDataValues dayjs engine h (removeAllNulls h data)"
  show ?thesis
  proof (cases "?t = []")
    case True
    then show ?thesis by (simp add: computeXmrStats_heap keeps_data_def)
  next
    case False
    let ?l = "calculateLimits h ?t"
    let ?h1 = "check_xdata h ?t ?l"
    let ?h2 = "fst (getMovements ?h1 ?t)"
    let ?m = "snd (getMovements ?h1 ?t)"
    have e: "fst (computeXmrStats dayjs engine h data) =
        checkOutsideLimit (reset_status ?h2 ?m) ?m (Num 0) (URL ?l)"
      using False by (simp add: computeXmrStats_heap Let_def)
    have 1: "keeps_data h ?h1" by (rule keeps_data_same [OF same_data_check_xdata])
    have 2: "keeps_data ?h1 ?h2" by (rule keeps_data_getMovements)
    have 3: "keeps_data ?h2 (reset_status ?h2 ?m)" by (rule keeps_data_same [OF same_data_reset_status])
    have 4: "keeps_data (reset_status ?h2 ?m) (checkOutsideLimit (reset_status ?h2 ?m) ?m (Num 0) (URL ?l))"
      by (rule keeps_data_same [OF same_data_checkOutsideLimit])
    show ?thesis
      unfolding e using 1 2 3 4 by (meson keeps_data_trans)
  qed
qed

lemma set_rearranged: "set (map ((!) dv) (sort_key f [0..<length dv])) = set dv"
proof -
  have "set (map ((!) dv) (sort_key f [0..<length dv])) = (!) dv ` {0..<length dv}" by simp
  also have "\<dots> = set dv" by (simp add: set_conv_nth image_def Bex_def conj_commute)
  finally show ?thesis .
qed

lemma set_sortDataValues [simp]: "set (sortDataValues dayjs engine h dv) = set dv"
  unfolding sortDataValues_def Let_def by (simp add: set_rearranged del: set_map)

lemma set_removeAllNulls: "set (removeAllNulls h data) \<subseteq> set data"
  by (auto simp: removeAllNulls_def)

lemma widen_xchart_fields:
  "xdataPerRange (foldl (widen_xchart h) s rs) = xdataPerRange s \<and>
   lineValues (foldl (widen_xchart h) s rs) = lineValues s \<and>
   movementsPerRange (foldl (widen_xchart h) s rs) = movementsPerRange s"
  by (induction rs arbitrary: s) (simp_all add: widen_xchart_def Let_def)

lemma widen_mrchart_fields:
  "xdataPerRange (foldl (widen_mrchart h) s rs) = xdataPerRange s \<and>
   lineValues (foldl (widen_mrchart h) s rs) = lineValues s \<and>
   movementsPerRange (foldl (widen_mrchart h) s rs) = movementsPerRange s"
  by (induction rs arbitrary: s) (simp_all add: widen_mrchart_def)

lemma computeXmrStats_stats:
  assumes "sortDataValues dayjs engine h (removeAllNulls h data) \<noteq> []"
  shows "xdataPerRange (snd (computeXmrStats dayjs engine h data)) =
           [sortDataValues dayjs engine h (removeAllNulls h data)] \<and>
         map LNPL (lineValues (snd (computeXmrStats dayjs engine h data))) =
           [LNPL (calculateLimits h (sortDataValues dayjs engine h (removeAllNulls h data)))] \<and>
         map UNPL (lineValues (snd (computeXmrStats dayjs engine h data))) =
           [UNPL (calculateLimits h (sortDataValues dayjs engine h (removeAllNulls h data)))]"
  using assms
  by (simp add: computeXmrStats_def Let_def widen_xchart_fields widen_mrchart_fields split: prod.split)

lemma status_after_movements:
  assumes "\<forall>r\<in>set tableData. r < length h1" and "r < length h1"
  shows "status (checkOutsideLimit (reset_status (fst (getMovements h1 tableData))
                    (snd (getMovements h1 tableData)))
                  (snd (getMovements h1 tableData)) lo hi ! r) = status (h1 ! r)"
proof -
  have "r \<notin> set (snd (getMovements h1 tableData))"
    unfolding getMovements_eq [OF assms(1)] using assms(2) by simp
  moreover have "fst (getMovements h1 tableData) ! r = h1 ! r"
    unfolding getMovements_eq [OF assms(1)] using assms(2) by (simp add: nth_append)
  ultimately show ?thesis
    by (simp add: status_checkOutsideLimit reset_status_set_all status_set_all)
qed

lemma status_rules_A_B:
  assumes "r \<in> set tableData" and "r < length h"
  shows "status (checkFourNearLimit (checkRunOfEight (reset_status h tableData) tableData avg)
                   tableData lowerQ upperQ ! r)
           \<in> {NORMAL, RUN_OF_EIGHT_EXCEPTION, FOUR_NEAR_LIMIT_EXCEPTION}"
  using assms
  by (simp add: status_checkFourNearLimit status_checkRunOfEight reset_status_set_all status_set_all)

text \<open>
  C9: whatever the input, \<^verbatim>\<open>computeXmrStats\<close> leaves every object that existed before
  the call in the store, with its \<open>order\<close>, \<open>x\<close> and \<open>value\<close> unchanged: of the
  caller's objects it writes at most the \<open>status\<close>. (The array of the caller is not
  written either: \<^verbatim>\<open>removeAllNulls\<close> makes a new array, and that one is sorted.)
\<close>

theorem computeXmrStats_frame:
  "length h \<le> length (fst (computeXmrStats dayjs engine h data)) \<and>
   (\<forall>r<length h.
      order (fst (computeXmrStats dayjs engine h data) ! r) = order (h ! r) \<and>
      x (fst (computeXmrStats dayjs engine h data) ! r) = x (h ! r) \<and>
      value (fst (computeXmrStats dayjs engine h data) ! r) = value (h ! r))"
  using keeps_data_computeXmrStats [of h dayjs engine data] by (simp add: keeps_data_def)

theorem computeXmrStats_frame_witness:
  "(1 :: nat) < length eighth_apart \<and>
   order (fst (computeXmrStats day_of_month as_it_is eighth_apart [0, 1]) ! 1) = 1 \<and>
   x (fst (computeXmrStats day_of_month as_it_is eighth_apart [0, 1]) ! 1) = Some ''2024-01-02'' \<and>
   value (fst (computeXmrStats day_of_month as_it_is eighth_apart [0, 1]) ! 1) = Some (Num 0.125) \<and>
   status (eighth_apart ! 1) = NPL_EXCEPTION \<and>
   status (fst (computeXmrStats day_of_month as_it_is eighth_apart [0, 1]) ! 1) = NORMAL"
proof -
  have n: "(1 :: nat) < length eighth_apart" by (simp add: eighth_apart_def)
  from computeXmrStats_frame [of eighth_apart day_of_month as_it_is "[0, 1]"] n
  have "order (fst (computeXmrStats day_of_month as_it_is eighth_apart [0, 1]) ! 1) = order (eighth_apart ! 1) \<and>
      x (fst (computeXmrStats day_of_month as_it_is eighth_apart [0, 1]) ! 1) = x (eighth_apart ! 1) \<and>
      value (fst (computeXmrStats day_of_month as_it_is eighth_apart [0, 1]) ! 1) = value (eighth_apart ! 1)"
    by blast
  then have f: "order (fst (computeXmrStats day_of_month as_it_is eighth_apart [0, 1]) ! 1) = 1 \<and>
   x (fst (computeXmrStats day_of_month as_it_is eighth_apart [0, 1]) ! 1) = Some ''2024-01-02'' \<and>
   value (fst (computeXmrStats day_of_month as_it_is eighth_apart [0, 1]) ! 1) = Some (Num 0.125)"
    by (simp add: eighth_apart_def)
  have s0: "status (eighth_apart ! 1) = NPL_EXCEPTION" by (simp add: eighth_apart_def)
  let ?l = "calculateLimits eighth_apart [0, 1]"
  let ?h1 = "check_xdata eighth_apart [0, 1] ?l"
  have T: "sortDataValues day_of_month as_it_is eighth_apart (removeAllNulls eighth_apart [0, 1]) = [0, 1]"
    by code_simp
  have len1: "length ?h1 = length eighth_apart"
    using same_data_check_xdata by (rule same_data_length)
  have v1: "\<forall>r\<in>set [0, 1]. r < length ?h1" unfolding len1 by (simp add: eighth_apart_def)
  have n1: "1 < length ?h1" unfolding len1 by (rule n)
  have "fst (computeXmrStats day_of_month as_it_is eighth_apart [0, 1]) =
      checkOutsideLimit (reset_status (fst (getMovements ?h1 [0, 1])) (snd (getMovements ?h1 [0, 1])))
        (snd (getMovements ?h1 [0, 1])) (Num 0) (URL ?l)"
    unfolding computeXmrStats_heap Let_def T by simp
  then have a: "status (fst (computeXmrStats day_of_month as_it_is eighth_apart [0, 1]) ! 1) =
      status (?h1 ! 1)"
    using status_after_movements [OF v1 n1] by simp
  have lo: "\<not> js_lt (Num 0.125) (binary64 (- 0.28))" and hi: "\<not> js_gt (Num 0.125) (binary64 0.41)"
    by (simp_all add: js_gt_def binary64_eval cong: let_weak_cong)
  have "num_value (reset_status eighth_apart [0, 1] ! 1) = Num 0.125"
    by (simp add: reset_status_set_all eighth_apart_def num_value_def)
  with lo hi have "status (?h1 ! 1) = status (reset_status eighth_apart [0, 1] ! 1)"
    unfolding limits_eighth_apart
    by (simp add: check_xdata_def checkRunOfEight_def checkFourNearLimit_def status_checkOutsideLimit)
  also have "status (reset_status eighth_apart [0, 1] ! 1) = NORMAL"
    by code_simp
  finally have s1: "status (fst (computeXmrStats day_of_month as_it_is eighth_apart [0, 1]) ! 1) = NORMAL"
    using a by simp
  from n f s0 s1 show ?thesis by blast
qed

section \<open>Precedence of the outside-limit check\<close>

text \<open>
  C3: after \<^verbatim>\<open>computeXmrStats\<close> (on rows that are objects of the store, with a
  non-empty cleaned series) every point of the value series whose value is strictly
  less than \<open>LNPL\<close> or strictly greater than \<open>UNPL\<close> has the status
  \<^verbatim>\<open>NPL_EXCEPTION\<close>, whatever the run-of-eight and four-near-limit checks gave it
  before. A point that is not strictly outside, one equal to a limit in particular, is
  not touched by the third check: it keeps the status it has after the reset and the
  first two checks, which is not \<^verbatim>\<open>NPL_EXCEPTION\<close>.
\<close>

theorem computeXmrStats_outside_limit_last:
  assumes "\<forall>r\<in>set data. r < length h"
  shows "let tableData = sortDataValues dayjs engine h (removeAllNulls h data);
             l = calculateLimits h tableData;
             rules_A_B = checkFourNearLimit
                           (checkRunOfEight (reset_status h tableData) tableData (avgX l))
                           tableData (lowerQuartile l) (upperQuartile l);
             h' = fst (computeXmrStats dayjs engine h data);
             stats = snd (computeXmrStats dayjs engine h data)
         in tableData \<noteq> [] \<longrightarrow>
            xdataPerRange stats = [tableData] \<and>
            map LNPL (lineValues stats) = [LNPL l] \<and>
            map UNPL (lineValues stats) = [UNPL l] \<and>
            (\<forall>r\<in>set tableData.
               value (h' ! r) = value (h ! r) \<and>
               (js_lt (num_value (h ! r)) (LNPL l) \<or> js_gt (num_value (h ! r)) (UNPL l) \<longrightarrow>
                  status (h' ! r) = NPL_EXCEPTION) \<and>
               (\<not> js_lt (num_value (h ! r)) (LNPL l) \<and> \<not> js_gt (num_value (h ! r)) (UNPL l) \<longrightarrow>
                  status (h' ! r) = status (rules_A_B ! r) \<and>
                  status (h' ! r) \<in> {NORMAL, RUN_OF_EIGHT_EXCEPTION, FOUR_NEAR_LIMIT_EXCEPTION}))"
proof -
  let ?t = "sortDataValues dayjs engine h (removeAllNulls h data)"
  let ?l = "calculateLimits h ?t"
  let ?h3 = "checkFourNearLimit (checkRunOfEight (reset_status h ?t) ?t (avgX ?l))
               ?t (lowerQuartile ?l) (upperQuartile ?l)"
  let ?h' = "fst (computeXmrStats dayjs engine h data)"
  have main: "value (?h' ! r) = value (h ! r) \<and>
               (js_lt (num_value (h ! r)) (LNPL ?l) \<or> js_gt (num_value (h ! r)) (UNPL ?l) \<longrightarrow>
                  status (?h' ! r) = NPL_EXCEPTION) \<and>
               (\<not> js_lt (num_value (h ! r)) (LNPL ?l) \<and> \<not> js_gt (num_value (h ! r)) (UNPL ?l) \<longrightarrow>
                  status (?h' ! r) = status (?h3 ! r) \<and>
                  status (?h' ! r) \<in> {NORMAL, RUN_OF_EIGHT_EXCEPTION, FOUR_NEAR_LIMIT_EXCEPTION})"
    if ne: "?t \<noteq> []" and r: "r \<in> set ?t" for r
  proof -
    have rd: "r \<in> set data" using r set_removeAllNulls by auto
    then have rh: "r < length h" using assms by simp
    have sd3: "same_data h ?h3"
      by (meson same_data_trans same_data_reset_status same_data_checkRunOfEight
          same_data_checkFourNearLimit)
    have len3: "length ?h3 = length h" using sd3 by (rule same_data_length)
    have nv3: "num_value (?h3 ! r) = num_value (h ! r)" using sd3 by (rule same_data_num_value)
    let ?h1 = "check_xdata h ?t ?l"
    have h1: "?h1 = checkOutsideLimit ?h3 ?t (LNPL ?l) (UNPL ?l)"
      by (simp add: check_xdata_def Let_def)
    have len1: "length ?h1 = length h"
      using same_data_check_xdata by (rule same_data_length)
    have vt: "\<forall>r\<in>set ?t. r < length ?h1"
      unfolding len1 using assms set_removeAllNulls by auto
    have e: "?h' = checkOutsideLimit (reset_status (fst (getMovements ?h1 ?t)) (snd (getMovements ?h1 ?t)))
                     (snd (getMovements ?h1 ?t)) (Num 0) (URL ?l)"
      using ne by (simp add: computeXmrStats_heap Let_def)
    have st: "status (?h' ! r) = status (?h1 ! r)"
      unfolding e using vt rh len1 by (intro status_after_movements) simp_all
    have st1: "status (?h1 ! r) =
        (if js_lt (num_value (h ! r)) (LNPL ?l) \<or> js_gt (num_value (h ! r)) (UNPL ?l)
         then NPL_EXCEPTION else status (?h3 ! r))"
      unfolding h1 status_checkOutsideLimit nv3 len3 using r rh by simp
    have ab: "status (?h3 ! r) \<in> {NORMAL, RUN_OF_EIGHT_EXCEPTION, FOUR_NEAR_LIMIT_EXCEPTION}"
      using r rh by (rule status_rules_A_B)
    have val: "value (?h' ! r) = value (h ! r)"
      using keeps_data_computeXmrStats [of h dayjs engine data] rh by (simp add: keeps_data_def)
    from st st1 ab val show ?thesis by auto
  qed
  show ?thesis
    unfolding Let_def using computeXmrStats_stats [of dayjs engine h data] main by blast
qed

theorem computeXmrStats_outside_limit_last_witness:
  "sortDataValues day_of_month as_it_is step_series (removeAllNulls step_series [0..<16]) = [0..<16] \<and>
   js_lt (num_value (step_series ! 0)) (LNPL (calculateLimits step_series [0..<16])) \<and>
   status (checkRunOfEight (reset_status step_series [0..<16]) [0..<16]
             (avgX (calculateLimits step_series [0..<16])) ! 0) = RUN_OF_EIGHT_EXCEPTION \<and>
   status (fst (computeXmrStats day_of_month as_it_is step_series [0..<16]) ! 0) = NPL_EXCEPTION \<and>
   sortDataValues day_of_month as_it_is nine_tens (removeAllNulls nine_tens [0..<9]) = [0..<9] \<and>
   num_value (nine_tens ! 0) = Num 10 \<and>
   LNPL (calculateLimits nine_tens [0..<9]) = Num 10 \<and>
   UNPL (calculateLimits nine_tens [0..<9]) = Num 10 \<and>
   status (fst (computeXmrStats day_of_month as_it_is nine_tens [0..<9]) ! 0) = RUN_OF_EIGHT_EXCEPTION"
proof -
  let ?T = "sortDataValues day_of_month as_it_is step_series (removeAllNulls step_series [0..<16])"
  have v: "\<forall>r\<in>set [0..<16]. r < length step_series" by (simp add: step_series_def)
  have T: "?T = [0..<16]" by code_simp
  have ne: "?T \<noteq> []" unfolding T by simp
  have r: "0 \<in> set ?T" unfolding T by simp
  have "num_value (step_series ! 0) = Num 10" by code_simp
  moreover have "js_lt (Num 10) (binary64 16.45)"
    by (simp add: binary64_eval cong: let_weak_cong)
  ultimately have lt: "js_lt (num_value (step_series ! 0)) (LNPL (calculateLimits step_series [0..<16]))"
    by (simp add: limits_step_series)
  have "status (checkRunOfEight (reset_status step_series [0..<16]) [0..<16] (Num 20) ! 0) =
          RUN_OF_EIGHT_EXCEPTION"
    by code_simp
  then have a: "status (checkRunOfEight (reset_status step_series [0..<16]) [0..<16]
             (avgX (calculateLimits step_series [0..<16])) ! 0) = RUN_OF_EIGHT_EXCEPTION"
    by (simp add: limits_step_series)
  from computeXmrStats_outside_limit_last [OF v, of day_of_month as_it_is] ne r lt
  have f: "status (fst (computeXmrStats day_of_month as_it_is step_series [0..<16]) ! 0) = NPL_EXCEPTION"
    unfolding Let_def T by blast
  let ?N = "sortDataValues day_of_month as_it_is nine_tens (removeAllNulls nine_tens [0..<9])"
  have v9: "\<forall>r\<in>set [0..<9]. r < length nine_tens" by (simp add: nine_tens_def)
  have N: "?N = [0..<9]" by code_simp
  have ne9: "?N \<noteq> []" unfolding N by simp
  have r9: "0 \<in> set ?N" unfolding N by simp
  have val: "num_value (nine_tens ! 0) = Num 10" by code_simp
  have lo: "LNPL (calculateLimits nine_tens [0..<9]) = Num 10" by (simp add: limits_nine_tens)
  have hi: "UNPL (calculateLimits nine_tens [0..<9]) = Num 10" by (simp add: limits_nine_tens)
  have inside: "\<not> js_lt (num_value (nine_tens ! 0)) (LNPL (calculateLimits nine_tens [0..<9])) \<and>
                \<not> js_gt (num_value (nine_tens ! 0)) (UNPL (calculateLimits nine_tens [0..<9]))"
    unfolding val lo hi by (simp add: js_gt_def)
  have "status (checkFourNearLimit
                  (checkRunOfEight (reset_status nine_tens [0..<9]) [0..<9] (Num 10))
                  [0..<9] (Num 10) (Num 10) ! 0) =
              RUN_OF_EIGHT_EXCEPTION"
    by code_simp
  then have ab: "status (checkFourNearLimit
                      (checkRunOfEight (reset_status nine_tens [0..<9]) [0..<9]
                         (avgX (calculateLimits nine_tens [0..<9])))
                      [0..<9] (lowerQuartile (calculateLimits nine_tens [0..<9]))
                      (upperQuartile (calculateLimits nine_tens [0..<9])) ! 0) =
              RUN_OF_EIGHT_EXCEPTION"
    by (simp add: limits_nine_tens)
  from computeXmrStats_outside_limit_last [OF v9, of day_of_month as_it_is] ne9 r9 inside
  have "status (fst (computeXmrStats day_of_month as_it_is nine_tens [0..<9]) ! 0) =
        status (checkFourNearLimit
                      (checkRunOfEight (reset_status nine_tens [0..<9]) [0..<9]
                         (avgX (calculateLimits nine_tens [0..<9])))
                      [0..<9] (lowerQuartile (calculateLimits nine_tens [0..<9]))
                      (upperQuartile (calculateLimits nine_tens [0..<9])) ! 0)"
    unfolding Let_def N by blast
  with ab have g: "status (fst (computeXmrStats day_of_month as_it_is nine_tens [0..<9]) ! 0) =
      RUN_OF_EIGHT_EXCEPTION" by simp
  from T lt a f N val lo hi g show ?thesis by blast
qed

section \<open>Preprocessing\<close>

lemma removeAllNulls_dropped:
  "removeAllNulls h data = filter (\<lambda>r. \<not> dropped (h ! r)) data"
proof -
  have "(truthy_string (x d) \<and> (truthy_value (value d) \<or> value_eq_zero (value d))) = (\<not> dropped d)"
    for d :: DataValue
    by (cases "x d"; cases "value d")
       (auto simp: truthy_string_def truthy_value_def value_eq_zero_def truthy_def eq_zero_def
          dropped_def)
  then show ?thesis by (simp add: removeAllNulls_def Let_def)
qed

lemma xdataPerRange_computeXmrStats:
  "xdataPerRange (snd (computeXmrStats dayjs engine h data)) =
     (if sortDataValues dayjs engine h (removeAllNulls h data) = [] then []
      else [sortDataValues dayjs engine h (removeAllNulls h data)])"
  by (simp add: computeXmrStats_def Let_def widen_xchart_fields widen_mrchart_fields split: prod.split)

lemma length_sortDataValues [simp]: "length (sortDataValues dayjs engine h dv) = length dv"
  by (simp add: sortDataValues_def Let_def)

lemma sortDataValues_parsed:
  assumes "\<forall>r\<in>set dv. dayjs (x (h ! r)) \<noteq> None"
  shows "sortDataValues dayjs engine h dv = sort_key (instant dayjs h) dv"
proof -
  have "filter (\<lambda>r. dayjs (x (h ! r)) \<noteq> None) dv = dv" using assms by (simp add: filter_id_conv)
  then show ?thesis by (simp add: sortDataValues_def Let_def)
qed

lemma fromDateStr_parsed:
  "dayjs (x (h ! r)) \<noteq> None \<Longrightarrow> fromDateStr dayjs (x (h ! r)) = Num (of_int (instant dayjs h r))"
  by (auto simp: fromDateStr_def instant_def)

text \<open>
  With a date that does not parse the result need not be in ascending order of the
  dates that do: for the engine that leaves the array as it is, the three rows below
  stay in the order of the instants 2, \<^verbatim>\<open>NaN\<close>, 1.
\<close>

lemma sortDataValues_unparsed_rows:
  "removeAllNulls unparsed_rows [0, 1, 2] = [0, 1, 2] \<and>
   map (\<lambda>r. fromDateStr day_of_month (x (unparsed_rows ! r))) [0, 1, 2] = [Num 2, NaN, Num 1] \<and>
   sortDataValues day_of_month as_it_is unparsed_rows (removeAllNulls unparsed_rows [0, 1, 2]) = [0, 1, 2]"
  by code_simp

text \<open>
  Claim C6 as it is stated drops exactly the rows without \<open>x\<close> or without a value. The
  row 3 of the example has both, its value is \<^verbatim>\<open>NaN\<close>, and is dropped.
\<close>

theorem removeAllNulls_exactly_counterexample:
  "\<not> spec_dropped (raw_rows ! 3) \<and> 3 \<notin> set (removeAllNulls raw_rows [0, 1, 2, 3, 4]) \<and>
   removeAllNulls raw_rows [0, 1, 2, 3, 4] \<noteq> filter (\<lambda>r. \<not> spec_dropped (raw_rows ! r)) [0, 1, 2, 3, 4]"
  by (simp add: removeAllNulls_dropped dropped_def spec_dropped_def raw_rows_def)

text \<open>
  C6, amended: \<^verbatim>\<open>computeXmrStats\<close> first drops exactly the rows whose \<open>x\<close> is absent or
  empty or whose value is absent or \<^verbatim>\<open>NaN\<close> (a value of zero is kept), as a total
  function, without a failure for any row; the rows that are left are then rearranged,
  and when the date string of each of them parses (its instant is a number, not
  \<^verbatim>\<open>NaN\<close>) they are sorted ascending by the instant of \<open>x\<close>, and the sort is stable:
  the rows of any one instant are in the order of the input. The result is the value
  series of the statistics.
\<close>

theorem computeXmrStats_preprocessing:
  "(let kept = filter (\<lambda>r. \<not> dropped (h ! r)) data;
        tableData = sortDataValues dayjs engine h (removeAllNulls h data)
    in removeAllNulls h data = kept \<and>
       length tableData = length kept \<and> set tableData = set kept \<and>
       ((\<forall>r\<in>set kept. dayjs (x (h ! r)) \<noteq> None) \<longrightarrow>
          (\<forall>r\<in>set kept. fromDateStr dayjs (x (h ! r)) = Num (of_int (instant dayjs h r))) \<and>
          sorted (map (instant dayjs h) tableData) \<and>
          (\<forall>t. filter (\<lambda>r. instant dayjs h r = t) tableData =
                filter (\<lambda>r. instant dayjs h r = t) kept)) \<and>
       xdataPerRange (snd (computeXmrStats dayjs engine h data)) =
         (if tableData = [] then [] else [tableData])) \<and>
   (\<not> dropped d \<longleftrightarrow> (\<exists>s n. x d = Some s \<and> s \<noteq> [] \<and> value d = Some n \<and> n \<noteq> NaN)) \<and>
   \<not> dropped \<lparr>order = i, x = Some (c # s), value = Some (Num 0), status = st\<rparr>"
proof -
  let ?kept = "filter (\<lambda>r. \<not> dropped (h ! r)) data"
  have 1: "\<not> dropped d \<longleftrightarrow> (\<exists>s n. x d = Some s \<and> s \<noteq> [] \<and> value d = Some n \<and> n \<noteq> NaN)"
    by (cases "x d"; cases "value d") (auto simp: dropped_def)
  have 2: "\<not> dropped \<lparr>order = i, x = Some (c # s), value = Some (Num 0), status = st\<rparr>"
    by (simp add: dropped_def)
  have 3: "(\<forall>r\<in>set ?kept. fromDateStr dayjs (x (h ! r)) = Num (of_int (instant dayjs h r))) \<and>
          sorted (map (instant dayjs h) (sortDataValues dayjs engine h ?kept)) \<and>
          (\<forall>t. filter (\<lambda>r. instant dayjs h r = t) (sortDataValues dayjs engine h ?kept) =
                filter (\<lambda>r. instant dayjs h r = t) ?kept)"
    if p: "\<forall>r\<in>set ?kept. dayjs (x (h ! r)) \<noteq> None"
    unfolding sortDataValues_parsed [OF p] using p
    by (simp add: fromDateStr_parsed sort_key_stable)
  show ?thesis
    unfolding Let_def xdataPerRange_computeXmrStats removeAllNulls_dropped
    using 1 2 3 by simp
qed

theorem computeXmrStats_preprocessing_witness:
  "filter (\<lambda>r. \<not> dropped (raw_rows ! r)) [0, 1, 2, 3, 4] = [0, 2, 4] \<and>
   day_of_month (x (raw_rows ! 0)) = Some 2 \<and>
   day_of_month (x (raw_rows ! 2)) = Some 1 \<and>
   day_of_month (x (raw_rows ! 4)) = Some 1 \<and>
   sortDataValues day_of_month as_it_is raw_rows (removeAllNulls raw_rows [0, 1, 2, 3, 4]) = [2, 4, 0] \<and>
   sorted (map (instant day_of_month raw_rows) [2, 4, 0]) \<and>
   map (instant day_of_month raw_rows) [2, 4, 0] = [1, 1, 2] \<and>
   fromDateStr day_of_month (x (raw_rows ! 0)) = Num 2 \<and>
   xdataPerRange (snd (computeXmrStats day_of_month as_it_is raw_rows [0, 1, 2, 3, 4])) = [[2, 4, 0]]"
proof -
  have K: "filter (\<lambda>r. \<not> dropped (raw_rows ! r)) [0, 1, 2, 3, 4] = [0, 2, 4]"
    by (simp add: dropped_def raw_rows_def)
  have d: "day_of_month (x (raw_rows ! 0)) = Some 2" "day_of_month (x (raw_rows ! 2)) = Some 1"
    "day_of_month (x (raw_rows ! 4)) = Some 1"
    by code_simp+
  then have p: "\<forall>r\<in>set [0, 2, 4]. day_of_month (x (raw_rows ! r)) \<noteq> None" by simp
  have m: "0 \<in> set [0, 2, 4 :: nat]" by simp
  have I: "map (instant day_of_month raw_rows) [2, 4, 0] = [1, 1, 2]"
    using d by (simp add: instant_def)
  have ne: "[2, 4, 0 :: nat] \<noteq> []" by simp
  note t = computeXmrStats_preprocessing [of raw_rows "[0, 1, 2, 3, 4]" day_of_month as_it_is]
  from t have R: "removeAllNulls raw_rows [0, 1, 2, 3, 4] = [0, 2, 4]"
    unfolding Let_def K by blast
  have T: "sortDataValues day_of_month as_it_is raw_rows [0, 2, 4] = [2, 4, 0]"
    by code_simp
  from t p have S: "sorted (map (instant day_of_month raw_rows) [2, 4, 0])"
    and F: "\<forall>r\<in>set [0, 2, 4]. fromDateStr day_of_month (x (raw_rows ! r)) =
              Num (of_int (instant day_of_month raw_rows r))"
    unfolding Let_def K R T by blast+
  have "instant day_of_month raw_rows 0 = 2" using d by (simp add: instant_def)
  with bspec [OF F m] have F0: "fromDateStr day_of_month (x (raw_rows ! 0)) = Num 2" by simp
  from t have "xdataPerRange (snd (computeXmrStats day_of_month as_it_is raw_rows [0, 1, 2, 3, 4])) =
         (if [2, 4, 0 :: nat] = [] then [] else [[2, 4, 0]])"
    unfolding Let_def R T by blast
  then have X: "xdataPerRange (snd (computeXmrStats day_of_month as_it_is raw_rows [0, 1, 2, 3, 4])) = [[2, 4, 0]]"
    by simp
  from K d R T S I F0 X show ?thesis by simp
qed

section \<open>The quarter markers at the call of \<^verbatim>\<open>checkFourNearLimit\<close>\<close>

text \<open>
  At its call in \<^verbatim>\<open>computeXmrStats\<close> the check gets the quarter markers of
  \<^verbatim>\<open>calculateLimits\<close>, and there the upper one is never below the lower one: the
  mean movement is a mean of rounded absolute values, and the arithmetic of binary64
  is monotone.
\<close>

lemma not_negative_absolute_differences: "\<forall>d\<in>set (absolute_differences vs). not_negative d"
  by (induction vs rule: absolute_differences.induct) (simp_all add: not_negative_abs)

lemma not_negative_movement_values: "\<forall>m\<in>set (movement_values vs). not_negative m"
  using not_negative_absolute_differences [of vs]
  by (auto simp: movement_values_def intro: not_negative_round)

lemma calculateLimits_markers_ordered:
  assumes "\<forall>r\<in>set xdata. r < length h"
  shows "\<not> js_lt (upperQuartile (calculateLimits h xdata)) (lowerQuartile (calculateLimits h xdata))"
proof -
  let ?ms = "movement_values (values_of h xdata)"
  have "not_negative (foldl (\<lambda>a b. js_add a b) (Num 0) ?ms)"
    using not_negative_movement_values by (intro not_negative_foldl) simp_all
  then have "not_negative (mean_movement ?ms)"
    unfolding mean_movement_def by (intro not_negative_div) simp_all
  then have "not_negative (js_mul (binary64 2.66) (mean_movement ?ms))"
    by (intro not_negative_mul not_negative_binary64) simp_all
  then show ?thesis
    unfolding calculateLimits_values [OF assms] limit_set_def Let_def
    by (simp add: markers_ordered)
qed

end
